theory Spec2Isabelle
  imports Main
begin

section \<open>Bytes, JavaScript strings and the character table\<close>

text \<open>
  The transformer reads the units of a Node.js \<open>Buffer\<close>: numbers in the range 0..255.
  A unit is modelled as a \<open>char\<close> (HOL's byte), its numeric value read with \<open>of_char\<close>.
  A JavaScript string is a sequence of UTF-16 code units, modelled as a list of
  naturals; \<open>lit\<close> is a string literal of the source (ASCII text).
\<close>

type_synonym byte = char
type_synonym jsstring = "nat list"

abbreviation code :: "byte \<Rightarrow> nat" where
  "code ch \<equiv> of_char ch"

abbreviation lit :: "string \<Rightarrow> jsstring" where
  "lit s \<equiv> map of_char s"

abbreviation Chars_Tab :: byte where "Chars_Tab \<equiv> CHR 0x09"
abbreviation Chars_LF :: byte where "Chars_LF \<equiv> CHR 0x0A"
abbreviation Chars_CR :: byte where "Chars_CR \<equiv> CHR 0x0D"
abbreviation Chars_Space :: byte where "Chars_Space \<equiv> CHR 0x20"
abbreviation Chars_Bang :: byte where "Chars_Bang \<equiv> CHR 0x21"
abbreviation Chars_DQuote :: byte where "Chars_DQuote \<equiv> CHR 0x22"
abbreviation Chars_SQuote :: byte where "Chars_SQuote \<equiv> CHR 0x27"
abbreviation Chars_Minus :: byte where "Chars_Minus \<equiv> CHR 0x2D"
abbreviation Chars_Slash :: byte where "Chars_Slash \<equiv> CHR 0x2F"
abbreviation Chars_Lt :: byte where "Chars_Lt \<equiv> CHR 0x3C"
abbreviation Chars_Equals :: byte where "Chars_Equals \<equiv> CHR 0x3D"
abbreviation Chars_Gt :: byte where "Chars_Gt \<equiv> CHR 0x3E"
abbreviation Chars_Underscore :: byte where "Chars_Underscore \<equiv> CHR 0x5F"

text \<open>Test if a character is a valid tag or attribute name character.\<close>

definition isNameChar :: "byte \<Rightarrow> bool" where
  "isNameChar ch =
     ((0x41 \<le> code ch \<and> code ch \<le> 0x5A)
      \<or> (0x61 \<le> code ch \<and> code ch \<le> 0x7A)
      \<or> ch = Chars_Minus
      \<or> ch = Chars_Underscore)"

definition isTagChar :: "byte \<Rightarrow> bool" where
  "isTagChar ch = (ch = Chars_Bang \<or> isNameChar ch)"

definition isWhitespace :: "byte \<Rightarrow> bool" where
  "isWhitespace ch =
     (ch = Chars_Space \<or> ch = Chars_Tab \<or> ch = Chars_LF \<or> ch = Chars_CR)"

definition isNonWhitespace :: "byte \<Rightarrow> bool" where
  "isNonWhitespace ch = (\<not> isWhitespace ch)"

section \<open>The runtime's string operations\<close>

text \<open>
  \<open>str\<close> decodes a byte array as UTF-8 (\<open>Buffer.from(arr).toString()\<close>). The decoder
  follows the WHATWG algorithm: an ill-formed sequence yields one U+FFFD and the
  offending byte is read again; a code point above U+FFFF becomes a surrogate pair.
\<close>

definition in_range :: "nat \<Rightarrow> nat \<Rightarrow> byte \<Rightarrow> bool" where
  "in_range lo hi c = (lo \<le> code c \<and> code c \<le> hi)"

definition utf16 :: "nat \<Rightarrow> jsstring" where
  "utf16 cp =
     (if cp < 0x10000 then [cp]
      else [0xD800 + (cp - 0x10000) div 0x400, 0xDC00 + (cp - 0x10000) mod 0x400])"

definition second_lo :: "nat \<Rightarrow> nat" where
  "second_lo lead = (if lead = 0xE0 then 0xA0 else if lead = 0xF0 then 0x90 else 0x80)"

definition second_hi :: "nat \<Rightarrow> nat" where
  "second_hi lead = (if lead = 0xED then 0x9F else if lead = 0xF4 then 0x8F else 0xBF)"

fun utf8_decode :: "byte list \<Rightarrow> jsstring" where
  "utf8_decode [] = []"
| "utf8_decode (b # bs) =
     (if code b < 0x80 then code b # utf8_decode bs
      else if 0xC2 \<le> code b \<and> code b \<le> 0xDF then
        (case bs of
           [] \<Rightarrow> [0xFFFD]
         | c # cs \<Rightarrow>
             if in_range 0x80 0xBF c
             then ((code b - 0xC0) * 0x40 + (code c - 0x80)) # utf8_decode cs
             else 0xFFFD # utf8_decode bs)
      else if 0xE0 \<le> code b \<and> code b \<le> 0xEF then
        (case bs of
           [] \<Rightarrow> [0xFFFD]
         | c # cs \<Rightarrow>
             if in_range (second_lo (code b)) (second_hi (code b)) c then
               (case cs of
                  [] \<Rightarrow> [0xFFFD]
                | d # ds \<Rightarrow>
                    if in_range 0x80 0xBF d
                    then ((code b - 0xE0) * 0x1000 + (code c - 0x80) * 0x40 + (code d - 0x80))
                           # utf8_decode ds
                    else 0xFFFD # utf8_decode cs)
             else 0xFFFD # utf8_decode bs)
      else if 0xF0 \<le> code b \<and> code b \<le> 0xF4 then
        (case bs of
           [] \<Rightarrow> [0xFFFD]
         | c # cs \<Rightarrow>
             if in_range (second_lo (code b)) (second_hi (code b)) c then
               (case cs of
                  [] \<Rightarrow> [0xFFFD]
                | d # ds \<Rightarrow>
                    if in_range 0x80 0xBF d then
                      (case ds of
                         [] \<Rightarrow> [0xFFFD]
                       | e # es \<Rightarrow>
                           if in_range 0x80 0xBF e
                           then utf16 ((code b - 0xF0) * 0x40000 + (code c - 0x80) * 0x1000
                                       + (code d - 0x80) * 0x40 + (code e - 0x80))
                                  @ utf8_decode es
                           else 0xFFFD # utf8_decode ds)
                    else 0xFFFD # utf8_decode cs)
             else 0xFFFD # utf8_decode bs)
      else 0xFFFD # utf8_decode bs)"

declare utf8_decode.simps(2) [simp del]

text \<open>Convert an array of characters to a JS string.\<close>

definition str :: "byte list \<Rightarrow> jsstring" where
  "str arr = utf8_decode arr"

text \<open>
  \<open>String.prototype.toLowerCase\<close>. Every use in the program compares the result with an
  ASCII literal, so the model is exact on the units whose lower-case form contains an
  ASCII unit (A-Z, U+212A KELVIN SIGN, U+0130) and leaves every other unit in place,
  where the runtime yields some other non-ASCII unit.
\<close>

definition lower_unit :: "nat \<Rightarrow> jsstring" where
  "lower_unit u =
     (if 0x41 \<le> u \<and> u \<le> 0x5A then [u + 0x20]
      else if u = 0x212A then [0x6B]
      else if u = 0x130 then [0x69, 0x307]
      else [u])"

definition toLowerCase :: "jsstring \<Rightarrow> jsstring" where
  "toLowerCase s = concat (map lower_unit s)"

text \<open>
  White space as \<open>String.prototype.trim\<close> and the regular expression class \<open>\s\<close> see
  it: the WhiteSpace and LineTerminator code points of ECMAScript.
\<close>

definition js_space :: "nat \<Rightarrow> bool" where
  "js_space u =
     ((0x09 \<le> u \<and> u \<le> 0x0D) \<or> u = 0x20 \<or> u = 0xA0 \<or> u = 0x1680
      \<or> (0x2000 \<le> u \<and> u \<le> 0x200A) \<or> u = 0x2028 \<or> u = 0x2029 \<or> u = 0x202F
      \<or> u = 0x205F \<or> u = 0x3000 \<or> u = 0xFEFF)"

definition trim :: "jsstring \<Rightarrow> jsstring" where
  "trim s = rev (dropWhile js_space (rev (dropWhile js_space s)))"

text \<open>\<open>s.split(/,/gm)\<close>: the pieces between the commas; never an empty array.\<close>

fun split_comma :: "jsstring \<Rightarrow> jsstring list" where
  "split_comma [] = [[]]"
| "split_comma (u # us) =
     (if u = 0x2C then [] # split_comma us
      else (case split_comma us of
              [] \<Rightarrow> [[u]]
            | piece # pieces \<Rightarrow> (u # piece) # pieces))"

text \<open>\<open>pieces.join(', ')\<close>.\<close>

fun join_comma_space :: "jsstring list \<Rightarrow> jsstring" where
  "join_comma_space [] = []"
| "join_comma_space [piece] = piece"
| "join_comma_space (piece # pieces) = piece @ lit '', '' @ join_comma_space pieces"

text \<open>
  The regular expression \<open>/\burl\((\s*)\/([^\/])/g\<close> of \<open>prefixCSSURLValues\<close>.
  \<open>match_url before s\<close> tries the pattern at the position that splits the subject into
  \<open>before\<close> and \<open>s\<close>, and returns the two captures and the text after the match. The
  greedy \<open>\s*\<close> never gives a unit back: the unit it would give back is white space,
  and the pattern continues with a slash.
\<close>

definition is_word_unit :: "nat \<Rightarrow> bool" where
  "is_word_unit u =
     ((0x30 \<le> u \<and> u \<le> 0x39) \<or> (0x41 \<le> u \<and> u \<le> 0x5A) \<or> u = 0x5F
      \<or> (0x61 \<le> u \<and> u \<le> 0x7A))"

definition word_boundary :: "jsstring \<Rightarrow> jsstring \<Rightarrow> bool" where
  "word_boundary before s =
     ((before \<noteq> [] \<and> is_word_unit (last before))
        \<noteq> (case s of [] \<Rightarrow> False | u # _ \<Rightarrow> is_word_unit u))"

definition match_url :: "jsstring \<Rightarrow> jsstring \<Rightarrow> (jsstring \<times> jsstring \<times> jsstring) option" where
  "match_url before s =
     (if word_boundary before s \<and> take 4 s = lit ''url('' then
        (case dropWhile js_space (drop 4 s) of
           slash # c # rest \<Rightarrow>
             if slash = 0x2F \<and> c \<noteq> 0x2F
             then Some (takeWhile js_space (drop 4 s), [c], rest)
             else None
         | _ \<Rightarrow> None)
      else None)"

definition matched_text :: "jsstring \<Rightarrow> jsstring \<Rightarrow> jsstring" where
  "matched_text ws c = lit ''url('' @ ws @ 0x2F # c"

text \<open>
  The replacement patterns of \<open>String.prototype.replace\<close> (GetSubstitution): \<open>$$\<close>,
  \<open>$&\<close>, \<open>$`\<close>, \<open>$'\<close>, and \<open>$n\<close> or \<open>$nn\<close> for a capture that exists; any other dollar
  sign stands for itself. The prefix is spliced into the replacement text, so a dollar
  sign in the prefix is read this way too.
\<close>

definition is_digit :: "nat \<Rightarrow> bool" where
  "is_digit u = (0x30 \<le> u \<and> u \<le> 0x39)"

definition capture_ok :: "jsstring list \<Rightarrow> nat \<Rightarrow> bool" where
  "capture_ok caps n = (1 \<le> n \<and> n \<le> length caps)"

fun get_substitution ::
  "jsstring \<Rightarrow> jsstring \<Rightarrow> jsstring \<Rightarrow> jsstring list \<Rightarrow> jsstring \<Rightarrow> jsstring" where
  "get_substitution matched before after caps [] = []"
| "get_substitution matched before after caps [u] = [u]"
| "get_substitution matched before after caps (u # v # t) =
     (if u \<noteq> 0x24 then u # get_substitution matched before after caps (v # t)
      else if v = 0x24 then 0x24 # get_substitution matched before after caps t
      else if v = 0x26 then matched @ get_substitution matched before after caps t
      else if v = 0x60 then before @ get_substitution matched before after caps t
      else if v = 0x27 then after @ get_substitution matched before after caps t
      else if is_digit v then
        (case t of
           [] \<Rightarrow>
             if capture_ok caps (v - 0x30) then caps ! (v - 0x30 - 1)
             else [0x24, v]
         | w # t' \<Rightarrow>
             if is_digit w \<and> capture_ok caps ((v - 0x30) * 10 + (w - 0x30))
             then caps ! ((v - 0x30) * 10 + (w - 0x30) - 1)
                    @ get_substitution matched before after caps t'
             else if capture_ok caps (v - 0x30)
             then caps ! (v - 0x30 - 1) @ get_substitution matched before after caps t
             else 0x24 # get_substitution matched before after caps (v # t))
      else 0x24 # get_substitution matched before after caps (v # t))"

function replace_url :: "jsstring \<Rightarrow> jsstring \<Rightarrow> jsstring \<Rightarrow> jsstring" where
  "replace_url template before s =
     (case s of
        [] \<Rightarrow> []
      | u # us \<Rightarrow>
          (case match_url before s of
             None \<Rightarrow> u # replace_url template (before @ [u]) us
           | Some (ws, c, rest) \<Rightarrow>
               get_substitution (matched_text ws c) before rest [ws, c] template
                 @ replace_url template (before @ matched_text ws c) rest))"
  by pat_completeness auto
termination
proof (relation "measure (\<lambda>(template, before, s). length s)")
  fix template before s :: jsstring and u us x ws y c rest
  assume "s = u # us" and "match_url before s = Some x" and "(ws, y) = x" and "(c, rest) = y"
  then have "match_url before s = Some (ws, c, rest)" by simp
  then obtain slash z where "dropWhile js_space (drop 4 s) = slash # z # rest"
    by (auto simp: match_url_def split: if_splits list.splits)
  moreover have "length (dropWhile js_space (drop 4 s)) \<le> length (drop 4 s)"
    by (rule length_dropWhile_le)
  ultimately have "length rest < length s" by simp
  then show "((template, before @ matched_text ws c, rest), (template, before, s))
               \<in> measure (\<lambda>(template, before, s). length s)"
    by simp
qed auto

declare replace_url.simps [simp del]

section \<open>The output buffer\<close>

text \<open>
  Buffer for aggregating single character writes into multi-byte chunks. \<open>buf\<close> is the
  fixed-size byte region, \<open>offset\<close> the write position, \<open>outs\<close> the chunks pushed
  downstream so far, oldest first. A write beyond the region's end is ignored, as an
  index assignment to a \<open>Buffer\<close> is; that is what \<open>xs[i := v]\<close> does.
\<close>

record WriteBuffer =
  buf :: "byte list"
  offset :: nat
  outs :: "byte list list"

definition WriteBuffer_new :: "nat \<Rightarrow> WriteBuffer" where
  "WriteBuffer_new n = \<lparr> buf = replicate n (CHR 0x00), offset = 0, outs = [] \<rparr>"

definition flush :: "WriteBuffer \<Rightarrow> WriteBuffer" where
  "flush wb =
     \<lparr> buf = replicate (length (buf wb)) (CHR 0x00),
       offset = 0,
       outs = (if 0 < offset wb then outs wb @ [take (offset wb) (buf wb)] else outs wb) \<rparr>"

definition writeChar :: "byte \<Rightarrow> WriteBuffer \<Rightarrow> WriteBuffer" where
  "writeChar ch wb =
     (let wb1 = (if length (buf wb) \<le> offset wb then flush wb else wb)
      in wb1 \<lparr> buf := (buf wb1)[offset wb1 := ch], offset := Suc (offset wb1) \<rparr>)"

text \<open>
  A chunk is a string or an array of bytes. A string is written one code unit at a
  time, and the buffer keeps the low eight bits of each (\<open>char_of\<close>).
\<close>

datatype chunk = StringChunk jsstring | ArrayChunk "byte list"

fun writeChunk :: "chunk \<Rightarrow> WriteBuffer \<Rightarrow> WriteBuffer" where
  "writeChunk (StringChunk s) wb = fold (\<lambda>u. writeChar (char_of u)) s wb"
| "writeChunk (ArrayChunk arr) wb = fold writeChar arr wb"

text \<open>Every byte written so far, pushed downstream or still in the buffer.\<close>

definition emitted :: "WriteBuffer \<Rightarrow> byte list" where
  "emitted wb = concat (outs wb) @ take (offset wb) (buf wb)"

definition chunk_bytes :: "chunk \<Rightarrow> byte list" where
  "chunk_bytes c = (case c of StringChunk s \<Rightarrow> map char_of s | ArrayChunk arr \<Rightarrow> arr)"

definition buffer_ok :: "WriteBuffer \<Rightarrow> bool" where
  "buffer_ok wb = (0 < length (buf wb) \<and> offset wb \<le> length (buf wb))"

section \<open>The parse context and the rewrite table\<close>

text \<open>
  What the program can throw: the error of \<open>_transform\<close> for an undefined next state,
  and the runtime's \<open>TypeError\<close> (a call of something that is not a function, a
  property read on \<open>undefined\<close>). \<open>HostDependent\<close> marks the one place the model does
  not follow: a property read on the runtime's \<open>Object\<close> function, whose members differ
  between runtime versions.
\<close>

datatype error = BadParserStateTransition | TypeError | HostDependent

datatype strategy = WriteValue | PrefixValue | PrefixSrcSetValues | PrefixCSSURLValues

text \<open>
  The tables are object literals, so a property read that finds no own property goes
  on to \<open>Object.prototype\<close>. These are its members whose names are made of name
  characters (all of them); \<open>Proto\<close> is the accessor \<open>__proto__\<close>.
\<close>

datatype proto_member =
  Constructor | DefineGetter | DefineSetter | HasOwnProperty | LookupGetter | LookupSetter
  | IsPrototypeOf | PropertyIsEnumerable | ToString | ValueOf | Proto | ToLocaleString

definition Object_prototype :: "(jsstring \<times> proto_member) list" where
  "Object_prototype =
     [(lit ''constructor'', Constructor),
      (lit ''__defineGetter__'', DefineGetter),
      (lit ''__defineSetter__'', DefineSetter),
      (lit ''hasOwnProperty'', HasOwnProperty),
      (lit ''__lookupGetter__'', LookupGetter),
      (lit ''__lookupSetter__'', LookupSetter),
      (lit ''isPrototypeOf'', IsPrototypeOf),
      (lit ''propertyIsEnumerable'', PropertyIsEnumerable),
      (lit ''toString'', ToString),
      (lit ''valueOf'', ValueOf),
      (lit ''__proto__'', Proto),
      (lit ''toLocaleString'', ToLocaleString)]"

text \<open>
  A value stored in \<open>vars.writeAttr\<close>: one of the four rewrite functions, or what a
  table inherits under that name (\<open>Inherited Proto\<close> is the object \<open>Object.prototype\<close>
  itself, the others are its functions).
\<close>

datatype js_value = Strategy strategy | Inherited proto_member

text \<open>
  A value stored in \<open>vars.attrs\<close>: a table of \<open>RewriteTags\<close>, or what \<open>RewriteTags\<close>
  inherits under the tag's name: \<open>Object.prototype\<close> for \<open>__proto__\<close>, a function of
  the runtime for the other names (\<open>Object\<close> for \<open>constructor\<close>).
\<close>

datatype attr_table =
  Table "(jsstring \<times> strategy) list" | ObjectPrototype | HostFunction proto_member

datatype tag_name = TagArray "byte list" | TagString jsstring

text \<open>
  The \<open>vars\<close> object. A field that is \<open>undefined\<close>, deleted or \<open>false\<close> is \<open>None\<close>;
  \<open>cbuff\<close> is the three-slot window of the comment scanner, a slot never written
  being \<open>None\<close>.
\<close>

record vars =
  prefix :: jsstring
  doctype :: "byte list option"
  tagName :: "tag_name option"
  attrs :: "attr_table option"
  attrName :: "byte list option"
  writeAttr :: "js_value option"
  endQuote :: "byte option"
  attrValue :: "byte list option"
  currentTag :: "byte list option"
  cbuff :: "(byte option \<times> byte option \<times> byte option) option"

section \<open>The rewrite strategies\<close>

text \<open>
  Each strategy reads \<open>vars.attrValue\<close> and writes to the buffer. It is called only
  from the two states that read a value, where \<open>attrValue\<close> is an array; with no array
  there the read of the value fails.
\<close>

text \<open>Write an attribute value.\<close>

definition writeValue :: "vars \<Rightarrow> WriteBuffer \<Rightarrow> error + WriteBuffer" where
  "writeValue v buffer =
     (case attrValue v of
        None \<Rightarrow> Inl TypeError
      | Some val \<Rightarrow> Inr (writeChunk (ArrayChunk val) buffer))"

text \<open>Write an attribute value, adding the prefix if the value starts with a slash.\<close>

definition starts_with_one_slash :: "byte list \<Rightarrow> bool" where
  "starts_with_one_slash val =
     (case val of
        [] \<Rightarrow> False
      | c0 # r \<Rightarrow> c0 = Chars_Slash \<and> (case r of [] \<Rightarrow> True | c1 # _ \<Rightarrow> c1 \<noteq> Chars_Slash))"

definition prefixValue :: "vars \<Rightarrow> WriteBuffer \<Rightarrow> error + WriteBuffer" where
  "prefixValue v buffer =
     (case attrValue v of
        None \<Rightarrow> Inl TypeError
      | Some val \<Rightarrow>
          Inr (writeChunk (ArrayChunk val)
                 (if starts_with_one_slash val
                  then writeChunk (StringChunk (prefix v)) buffer
                  else buffer)))"

text \<open>Rewrite a set of image source set values.\<close>

definition prefix_candidate :: "jsstring \<Rightarrow> jsstring \<Rightarrow> jsstring" where
  "prefix_candidate pfx piece =
     (let t = trim piece
      in if (case t of [] \<Rightarrow> False | u # _ \<Rightarrow> u = 0x2F) then pfx @ t else t)"

definition srcset_values :: "jsstring \<Rightarrow> byte list \<Rightarrow> jsstring" where
  "srcset_values pfx val =
     join_comma_space (map (prefix_candidate pfx) (split_comma (str val)))"

definition prefixSrcSetValues :: "vars \<Rightarrow> WriteBuffer \<Rightarrow> error + WriteBuffer" where
  "prefixSrcSetValues v buffer =
     (case attrValue v of
        None \<Rightarrow> Inl TypeError
      | Some val \<Rightarrow> Inr (writeChunk (StringChunk (srcset_values (prefix v) val)) buffer))"

text \<open>Rewrite URLs in embedded CSS styles.\<close>

definition css_replacement :: "jsstring \<Rightarrow> jsstring" where
  "css_replacement pfx = lit ''url($1'' @ pfx @ lit ''/$2''"

definition css_values :: "jsstring \<Rightarrow> byte list \<Rightarrow> jsstring" where
  "css_values pfx val = replace_url (css_replacement pfx) [] (str val)"

definition prefixCSSURLValues :: "vars \<Rightarrow> WriteBuffer \<Rightarrow> error + WriteBuffer" where
  "prefixCSSURLValues v buffer =
     (case attrValue v of
        None \<Rightarrow> Inl TypeError
      | Some val \<Rightarrow> Inr (writeChunk (StringChunk (css_values (prefix v) val)) buffer))"

text \<open>
  The call \<open>vars.writeAttr(vars, buffer)\<close>. \<open>Object.prototype\<close> is not a function, and
  \<open>__defineGetter__\<close> and \<open>__defineSetter__\<close> refuse an accessor that is not one
  (the buffer): these calls throw. The other inherited functions return without
  writing.
\<close>

definition call_writeAttr :: "js_value \<Rightarrow> vars \<Rightarrow> WriteBuffer \<Rightarrow> error + WriteBuffer" where
  "call_writeAttr f v buffer =
     (case f of
        Strategy WriteValue \<Rightarrow> writeValue v buffer
      | Strategy PrefixValue \<Rightarrow> prefixValue v buffer
      | Strategy PrefixSrcSetValues \<Rightarrow> prefixSrcSetValues v buffer
      | Strategy PrefixCSSURLValues \<Rightarrow> prefixCSSURLValues v buffer
      | Inherited m \<Rightarrow>
          if m = Proto \<or> m = DefineGetter \<or> m = DefineSetter then Inl TypeError
          else Inr buffer)"

text \<open>
  The set of supported attribute rewrites, keyed by tag name. Each tag listed here may
  support one or more rewrites of named attributes on the tag.
\<close>

definition RewriteTags :: "(jsstring \<times> (jsstring \<times> strategy) list) list" where
  "RewriteTags =
     [(lit ''base'',   [(lit ''href'', PrefixValue), (lit ''target'', PrefixValue)]),
      (lit ''link'',   [(lit ''href'', PrefixValue), (lit ''style'', PrefixCSSURLValues)]),
      (lit ''a'',      [(lit ''href'', PrefixValue), (lit ''style'', PrefixCSSURLValues)]),
      (lit ''source'', [(lit ''src'', PrefixValue), (lit ''srcset'', PrefixSrcSetValues)]),
      (lit ''img'',    [(lit ''src'', PrefixValue), (lit ''srcset'', PrefixSrcSetValues),
                        (lit ''style'', PrefixCSSURLValues)]),
      (lit ''iframe'', [(lit ''src'', PrefixValue), (lit ''style'', PrefixCSSURLValues)]),
      (lit ''embed'',  [(lit ''src'', PrefixValue), (lit ''style'', PrefixCSSURLValues)]),
      (lit ''video'',  [(lit ''src'', PrefixValue), (lit ''style'', PrefixCSSURLValues)]),
      (lit ''audio'',  [(lit ''src'', PrefixValue), (lit ''style'', PrefixCSSURLValues)]),
      (lit ''track'',  [(lit ''src'', PrefixValue), (lit ''style'', PrefixCSSURLValues)]),
      (lit ''script'', [(lit ''src'', PrefixValue)]),
      (lit ''*'',      [(lit ''style'', PrefixCSSURLValues)])]"

text \<open>\<open>RewriteTags[name]\<close>: an own table, else what the object inherits, else \<open>undefined\<close>.\<close>

definition RewriteTags_get :: "jsstring \<Rightarrow> attr_table option" where
  "RewriteTags_get name =
     (case map_of RewriteTags name of
        Some t \<Rightarrow> Some (Table t)
      | None \<Rightarrow>
          (case map_of Object_prototype name of
             None \<Rightarrow> None
           | Some m \<Rightarrow> Some (if m = Proto then ObjectPrototype else HostFunction m)))"

text \<open>
  \<open>vars.attrs[name]\<close>, with \<open>None\<close> for a value that is not truthy. On a table, the own
  rewrite or the inherited member. On \<open>Object.prototype\<close>, its member; its \<open>__proto__\<close>
  is \<open>null\<close>.
\<close>

definition attrs_get :: "attr_table \<Rightarrow> jsstring \<Rightarrow> error + js_value option" where
  "attrs_get t name =
     (case t of
        Table rewrites \<Rightarrow>
          (case map_of rewrites name of
             Some f \<Rightarrow> Inr (Some (Strategy f))
           | None \<Rightarrow> Inr (map_option Inherited (map_of Object_prototype name)))
      | ObjectPrototype \<Rightarrow>
          (case map_of Object_prototype name of
             None \<Rightarrow> Inr None
           | Some m \<Rightarrow> Inr (if m = Proto then None else Some (Inherited m)))
      | HostFunction m \<Rightarrow> Inl HostDependent)"

definition DOCTYPE :: jsstring where
  "DOCTYPE = lit ''!doctypehtml''"

section \<open>The parser state machine\<close>

datatype state =
  find_doctype | read_doctype | writethrough | writethrough_to_end | read_tag_name
  | find_attr_name_start | read_attr_name | find_attr_equals | find_attr_value_start
  | find_attr_value_end_quote | find_attr_value_end_no_quote | find_tag_end
  | find_script_end | find_comment_end

text \<open>
  A step returns the next state (\<open>None\<close> when the function returns nothing), the buffer
  and the context as it leaves them, or the error it throws.
\<close>

type_synonym step_result = "error + (state option \<times> WriteBuffer \<times> vars)"

abbreviation goto :: "state \<Rightarrow> WriteBuffer \<Rightarrow> vars \<Rightarrow> step_result" where
  "goto s buffer v \<equiv> Inr (Some s, buffer, v)"

definition endOfTagCheck :: "byte \<Rightarrow> vars \<Rightarrow> state \<Rightarrow> state" where
  "endOfTagCheck ch v continueState =
     (if ch = Chars_Slash then writethrough
      else if ch = Chars_Gt then
        (if tagName v = Some (TagString (lit ''script'')) then find_script_end
         else writethrough)
      else continueState)"

definition SM_find_doctype :: "byte \<Rightarrow> WriteBuffer \<Rightarrow> vars \<Rightarrow> step_result" where
  "SM_find_doctype ch buffer v =
     (let buffer = writeChar ch buffer
      in if isWhitespace ch then goto find_doctype buffer v
         else if ch = Chars_Lt then goto read_doctype buffer (v\<lparr>doctype := Some []\<rparr>)
         else goto writethrough_to_end buffer v)"

definition SM_read_doctype :: "byte \<Rightarrow> WriteBuffer \<Rightarrow> vars \<Rightarrow> step_result" where
  "SM_read_doctype ch buffer v =
     (let buffer = writeChar ch buffer
      in case doctype v of
           None \<Rightarrow> Inl TypeError
         | Some d \<Rightarrow>
             if ch = Chars_Gt then
               (if toLowerCase (str d) = DOCTYPE
                then goto writethrough buffer (v\<lparr>doctype := None\<rparr>)
                else goto writethrough_to_end buffer (v\<lparr>doctype := None\<rparr>))
             else
               (let d = (if \<not> isWhitespace ch then d @ [ch] else d)
                in if length DOCTYPE < length d
                   then goto writethrough_to_end buffer (v\<lparr>doctype := None\<rparr>)
                   else goto read_doctype buffer (v\<lparr>doctype := Some d\<rparr>)))"

definition SM_writethrough :: "byte \<Rightarrow> WriteBuffer \<Rightarrow> vars \<Rightarrow> step_result" where
  "SM_writethrough ch buffer v =
     (let buffer = writeChar ch buffer
      in if ch = Chars_Lt then goto read_tag_name buffer (v\<lparr>tagName := Some (TagArray [])\<rparr>)
         else goto writethrough buffer v)"

definition SM_writethrough_to_end :: "byte \<Rightarrow> WriteBuffer \<Rightarrow> vars \<Rightarrow> step_result" where
  "SM_writethrough_to_end ch buffer v = goto writethrough_to_end (writeChar ch buffer) v"

text \<open>
  \<open>read-tag-name\<close> returns a state only when a table was found; the table of \<open>*\<close> is
  the fallback. The name is an array whenever this state is entered; \<open>str\<close> of a name
  that is a string already would give the string back.
\<close>

definition SM_read_tag_name :: "byte \<Rightarrow> WriteBuffer \<Rightarrow> vars \<Rightarrow> step_result" where
  "SM_read_tag_name ch buffer v =
     (let buffer = writeChar ch buffer
      in if isTagChar ch then
           (case tagName v of
              Some (TagArray a) \<Rightarrow> goto read_tag_name buffer (v\<lparr>tagName := Some (TagArray (a @ [ch]))\<rparr>)
            | _ \<Rightarrow> Inl TypeError)
         else
           (case tagName v of
              None \<Rightarrow> Inl TypeError
            | Some t \<Rightarrow>
                (let name = toLowerCase (case t of TagArray a \<Rightarrow> str a | TagString n \<Rightarrow> n);
                     v = v\<lparr>tagName := Some (TagString name)\<rparr>
                 in if name = lit ''!--''
                    then goto find_comment_end buffer (v\<lparr>cbuff := Some (None, None, None)\<rparr>)
                    else
                      (case (case RewriteTags_get name of
                               None \<Rightarrow> RewriteTags_get (lit ''*'')
                             | Some t \<Rightarrow> Some t) of
                         None \<Rightarrow> Inr (None, buffer, v)
                       | Some t \<Rightarrow>
                           goto (endOfTagCheck ch (v\<lparr>attrs := Some t\<rparr>) find_attr_name_start)
                             buffer (v\<lparr>attrs := Some t\<rparr>)))))"

text \<open>Find the start of an attribute name.\<close>

definition SM_find_attr_name_start :: "byte \<Rightarrow> WriteBuffer \<Rightarrow> vars \<Rightarrow> step_result" where
  "SM_find_attr_name_start ch buffer v =
     (let buffer = writeChar ch buffer
      in if isNameChar ch then goto read_attr_name buffer (v\<lparr>attrName := Some [ch]\<rparr>)
         else goto (endOfTagCheck ch v find_attr_name_start) buffer v)"

text \<open>Read an attribute name; at its end, look the rewrite up (default: \<open>writeValue\<close>).\<close>

definition SM_read_attr_name :: "byte \<Rightarrow> WriteBuffer \<Rightarrow> vars \<Rightarrow> step_result" where
  "SM_read_attr_name ch buffer v =
     (let buffer = writeChar ch buffer
      in case attrName v of
           None \<Rightarrow> Inl TypeError
         | Some a \<Rightarrow>
             if isNameChar ch then goto read_attr_name buffer (v\<lparr>attrName := Some (a @ [ch])\<rparr>)
             else
               (case attrs v of
                  None \<Rightarrow> Inl TypeError
                | Some t \<Rightarrow>
                    (case attrs_get t (str a) of
                       Inl e \<Rightarrow> Inl e
                     | Inr found \<Rightarrow>
                         (let v = v\<lparr>writeAttr :=
                                     Some (case found of
                                             None \<Rightarrow> Strategy WriteValue
                                           | Some f \<Rightarrow> f)\<rparr>
                          in if ch = Chars_Equals then goto find_attr_value_start buffer v
                             else goto find_attr_equals buffer v))))"

text \<open>Find attribute assignment.\<close>

definition SM_find_attr_equals :: "byte \<Rightarrow> WriteBuffer \<Rightarrow> vars \<Rightarrow> step_result" where
  "SM_find_attr_equals ch buffer v =
     (let buffer = writeChar ch buffer
      in if ch = Chars_Equals then goto find_attr_value_start buffer v
         else if isNameChar ch then goto read_attr_name buffer (v\<lparr>attrName := Some [ch]\<rparr>)
         else goto (endOfTagCheck ch v find_attr_equals) buffer v)"

text \<open>Find start of attribute value. White space here is not written.\<close>

definition SM_find_attr_value_start :: "byte \<Rightarrow> WriteBuffer \<Rightarrow> vars \<Rightarrow> step_result" where
  "SM_find_attr_value_start ch buffer v =
     (if ch = Chars_DQuote \<or> ch = Chars_SQuote
      then goto find_attr_value_end_quote (writeChar ch buffer)
             (v\<lparr>endQuote := Some ch, attrValue := Some []\<rparr>)
      else if isNonWhitespace ch
      then goto find_attr_value_end_no_quote buffer (v\<lparr>attrValue := Some [ch]\<rparr>)
      else goto find_attr_value_start buffer v)"

text \<open>The end of a value: call the rewrite, clear the value, write the terminator.\<close>

definition end_of_value :: "byte \<Rightarrow> WriteBuffer \<Rightarrow> vars \<Rightarrow> state \<Rightarrow> step_result" where
  "end_of_value ch buffer v next =
     (case writeAttr v of
        None \<Rightarrow> Inl TypeError
      | Some f \<Rightarrow>
          (case call_writeAttr f v buffer of
             Inl e \<Rightarrow> Inl e
           | Inr buffer \<Rightarrow> goto next (writeChar ch buffer) (v\<lparr>attrValue := None\<rparr>)))"

text \<open>Find end of quoted attribute value.\<close>

definition SM_find_attr_value_end_quote :: "byte \<Rightarrow> WriteBuffer \<Rightarrow> vars \<Rightarrow> step_result" where
  "SM_find_attr_value_end_quote ch buffer v =
     (if endQuote v = Some ch then end_of_value ch buffer v find_attr_name_start
      else if ch = Chars_Gt then end_of_value ch buffer v (endOfTagCheck ch v writethrough)
      else
        (case attrValue v of
           None \<Rightarrow> Inl TypeError
         | Some val \<Rightarrow> goto find_attr_value_end_quote buffer (v\<lparr>attrValue := Some (val @ [ch])\<rparr>)))"

text \<open>Find end of non-quoted attribute value.\<close>

definition SM_find_attr_value_end_no_quote :: "byte \<Rightarrow> WriteBuffer \<Rightarrow> vars \<Rightarrow> step_result" where
  "SM_find_attr_value_end_no_quote ch buffer v =
     (if isWhitespace ch then end_of_value ch buffer v find_attr_name_start
      else if ch = Chars_Gt then end_of_value ch buffer v (endOfTagCheck ch v writethrough)
      else
        (case attrValue v of
           None \<Rightarrow> Inl TypeError
         | Some val \<Rightarrow>
             goto find_attr_value_end_no_quote buffer (v\<lparr>attrValue := Some (val @ [ch])\<rparr>)))"

text \<open>Find end of tag.\<close>

definition SM_find_tag_end :: "byte \<Rightarrow> WriteBuffer \<Rightarrow> vars \<Rightarrow> step_result" where
  "SM_find_tag_end ch buffer v =
     goto (endOfTagCheck ch v find_tag_end) (writeChar ch buffer) v"

text \<open>
  Find end of \<open>script\<close> block. \<open>currentTag\<close> records the name of a tag met in the
  block; it is deleted when the name is not \<open>/script\<close>, and kept when it is.
\<close>

definition SM_find_script_end :: "byte \<Rightarrow> WriteBuffer \<Rightarrow> vars \<Rightarrow> step_result" where
  "SM_find_script_end ch buffer v =
     (let buffer = writeChar ch buffer
      in if ch = Chars_Lt then goto find_script_end buffer (v\<lparr>currentTag := Some []\<rparr>)
         else
           (case currentTag v of
              None \<Rightarrow> goto find_script_end buffer v
            | Some t \<Rightarrow>
                if ch = Chars_Slash \<or> isNameChar ch
                then goto find_script_end buffer (v\<lparr>currentTag := Some (t @ [ch])\<rparr>)
                else if str t = lit ''/script'' then goto writethrough buffer v
                else goto find_script_end buffer (v\<lparr>currentTag := None\<rparr>)))"

text \<open>Find the end of a comment.\<close>

definition SM_find_comment_end :: "byte \<Rightarrow> WriteBuffer \<Rightarrow> vars \<Rightarrow> step_result" where
  "SM_find_comment_end ch buffer v =
     (let buffer = writeChar ch buffer
      in case cbuff v of
           None \<Rightarrow> Inl TypeError
         | Some (c0, c1, c2) \<Rightarrow>
             (let v = v\<lparr>cbuff := Some (c1, c2, Some ch)\<rparr>
              in if c1 = Some Chars_Minus \<and> c2 = Some Chars_Minus \<and> ch = Chars_Gt
                 then goto writethrough buffer v
                 else goto find_comment_end buffer v))"

text \<open>The dispatch table \<open>SM\<close>.\<close>

fun SM :: "state \<Rightarrow> byte \<Rightarrow> WriteBuffer \<Rightarrow> vars \<Rightarrow> step_result" where
  "SM find_doctype = SM_find_doctype"
| "SM read_doctype = SM_read_doctype"
| "SM writethrough = SM_writethrough"
| "SM writethrough_to_end = SM_writethrough_to_end"
| "SM read_tag_name = SM_read_tag_name"
| "SM find_attr_name_start = SM_find_attr_name_start"
| "SM read_attr_name = SM_read_attr_name"
| "SM find_attr_equals = SM_find_attr_equals"
| "SM find_attr_value_start = SM_find_attr_value_start"
| "SM find_attr_value_end_quote = SM_find_attr_value_end_quote"
| "SM find_attr_value_end_no_quote = SM_find_attr_value_end_no_quote"
| "SM find_tag_end = SM_find_tag_end"
| "SM find_script_end = SM_find_script_end"
| "SM find_comment_end = SM_find_comment_end"

section \<open>The transformer\<close>

record HTMLTransformer =
  t_vars :: vars
  t_state :: state
  t_buffer :: WriteBuffer

text \<open>
  Make a new transformer. Remove any trailing slash on the prefix (not needed, because
  the values the prefix is prepended to will always start with a slash).
\<close>

definition new_vars :: "jsstring \<Rightarrow> vars" where
  "new_vars pfx =
     \<lparr> prefix = pfx, doctype = None, tagName = None, attrs = None, attrName = None,
       writeAttr = None, endQuote = None, attrValue = None, currentTag = None,
       cbuff = None \<rparr>"

definition new_HTMLTransformer :: "jsstring \<Rightarrow> HTMLTransformer" where
  "new_HTMLTransformer pfx =
     \<lparr> t_vars = new_vars (if pfx \<noteq> [] \<and> last pfx = 0x2F then butlast pfx else pfx),
       t_state = find_doctype,
       t_buffer = WriteBuffer_new 4096 \<rparr>"

text \<open>
  The loop of \<open>_transform\<close> over the units of a chunk. An undefined next state throws;
  an error thrown by a step passes through.
\<close>

fun transform_loop ::
  "state \<Rightarrow> WriteBuffer \<Rightarrow> vars \<Rightarrow> byte list \<Rightarrow> error + (state \<times> WriteBuffer \<times> vars)" where
  "transform_loop st buffer v [] = Inr (st, buffer, v)"
| "transform_loop st buffer v (ch # chunk) =
     (case SM st ch buffer v of
        Inl e \<Rightarrow> Inl e
      | Inr (None, buffer', v') \<Rightarrow> Inl BadParserStateTransition
      | Inr (Some st', buffer', v') \<Rightarrow> transform_loop st' buffer' v' chunk)"

text \<open>
  \<open>_transform\<close>: the transformer after the chunk, and whether the callback was called.
\<close>

definition HTMLTransformer_transform ::
  "HTMLTransformer \<Rightarrow> byte list \<Rightarrow> error + (HTMLTransformer \<times> bool)" where
  "HTMLTransformer_transform t chunk =
     (case transform_loop (t_state t) (t_buffer t) (t_vars t) chunk of
        Inl e \<Rightarrow> Inl e
      | Inr (st, buffer, v) \<Rightarrow> Inr (\<lparr> t_vars = v, t_state = st, t_buffer = buffer \<rparr>, True))"

text \<open>
  \<open>_flush\<close>: a value still open is written as it is, the buffer is flushed. The
  callback is not called.
\<close>

definition HTMLTransformer_flush :: "HTMLTransformer \<Rightarrow> HTMLTransformer \<times> bool" where
  "HTMLTransformer_flush t =
     (t\<lparr> t_buffer :=
           flush (case attrValue (t_vars t) of
                    None \<Rightarrow> t_buffer t
                  | Some val \<Rightarrow> writeChunk (ArrayChunk val) (t_buffer t)) \<rparr>,
      False)"

text \<open>
  The stream around the transformer: \<open>write(chunk)\<close> for each chunk, in order, each
  taken once the callback of the one before was called; then \<open>end()\<close>, which flushes.
  The result is what was pushed downstream and whether the end of the stream was
  signalled, which the stream does when the callback of \<open>_flush\<close> is called.
\<close>

fun write_chunks :: "HTMLTransformer \<Rightarrow> byte list list \<Rightarrow> error + HTMLTransformer \<times> bool" where
  "write_chunks t [] = Inr (t, True)"
| "write_chunks t (chunk # chunks) =
     (case HTMLTransformer_transform t chunk of
        Inl e \<Rightarrow> Inl e
      | Inr (t', called) \<Rightarrow> if called then write_chunks t' chunks else Inr (t', False))"

record outcome =
  pushed :: "byte list list"
  ended :: bool

definition run :: "jsstring \<Rightarrow> byte list list \<Rightarrow> error + outcome" where
  "run pfx chunks =
     (case write_chunks (new_HTMLTransformer pfx) chunks of
        Inl e \<Rightarrow> Inl e
      | Inr (t, called) \<Rightarrow>
          if called
          then (case HTMLTransformer_flush t of
                  (t', fin) \<Rightarrow> Inr \<lparr> pushed = outs (t_buffer t'), ended = fin \<rparr>)
          else Inr \<lparr> pushed = outs (t_buffer t), ended = False \<rparr>)"

text \<open>The bytes the sink receives: the pushed chunks, in order.\<close>

definition sink_bytes :: "jsstring \<Rightarrow> byte list list \<Rightarrow> error + byte list" where
  "sink_bytes pfx chunks = map_sum id (\<lambda>r. concat (pushed r)) (run pfx chunks)"

section \<open>Notions of the specification\<close>

text \<open>
  A leading doctype declaration, as the specification words it: optional white space,
  \<open><\<close>, and up to the first \<open>>\<close> a body whose units other than white space read
  \<open>!doctypehtml\<close> when upper-case ASCII letters are lowered.
\<close>

definition ascii_lower :: "byte \<Rightarrow> byte" where
  "ascii_lower c = (if 0x41 \<le> code c \<and> code c \<le> 0x5A then char_of (code c + 0x20) else c)"

definition begins_with_html_doctype :: "byte list \<Rightarrow> bool" where
  "begins_with_html_doctype input =
     (case dropWhile isWhitespace input of
        [] \<Rightarrow> False
      | c # r \<Rightarrow>
          c = Chars_Lt \<and> Chars_Gt \<in> set r
          \<and> map ascii_lower (filter isNonWhitespace (takeWhile (\<lambda>x. x \<noteq> Chars_Gt) r))
              = ''!doctypehtml'')"

text \<open>
  The CSS-URL rewrite as claim C5 words it: at every occurrence, left to right and not
  overlapping, of \<open>url(\<close>, optional white space and a \<open>/\<close> that no second \<open>/\<close> follows,
  the prefix goes in before that \<open>/\<close>; everything else is kept.
\<close>

definition claimed_occurrence :: "byte list \<Rightarrow> (byte list \<times> byte list) option" where
  "claimed_occurrence s =
     (if take 4 s = ''url('' then
        (case dropWhile isWhitespace (drop 4 s) of
           [] \<Rightarrow> None
         | c # r \<Rightarrow>
             if c = Chars_Slash \<and> take 1 r \<noteq> ''/''
             then Some (''url('' @ takeWhile isWhitespace (drop 4 s), r)
             else None)
      else None)"

function claimed_css_rewrite :: "byte list \<Rightarrow> byte list \<Rightarrow> byte list" where
  "claimed_css_rewrite pfx s =
     (case s of
        [] \<Rightarrow> []
      | c # cs \<Rightarrow>
          (case claimed_occurrence s of
             None \<Rightarrow> c # claimed_css_rewrite pfx cs
           | Some (before_slash, after_slash) \<Rightarrow>
               before_slash @ pfx @ Chars_Slash # claimed_css_rewrite pfx after_slash))"
  by pat_completeness auto
termination
proof (relation "measure (\<lambda>(pfx, s). length s)")
  fix pfx s :: "byte list" and c cs x before_slash after_slash
  assume "s = c # cs" and "claimed_occurrence s = Some x" and "(before_slash, after_slash) = x"
  then have "claimed_occurrence s = Some (before_slash, after_slash)" by simp
  then obtain slash where "dropWhile isWhitespace (drop 4 s) = slash # after_slash"
    by (auto simp: claimed_occurrence_def split: if_splits list.splits)
  moreover have "length (dropWhile isWhitespace (drop 4 s)) \<le> length (drop 4 s)"
    by (rule length_dropWhile_le)
  ultimately have "length after_slash < length s" by simp
  then show "((pfx, after_slash), (pfx, s)) \<in> measure (\<lambda>(pfx, s). length s)"
    by simp
qed auto

declare claimed_css_rewrite.simps [simp del]

text \<open>
  The CSS-URL rewrite as the amended claim C5 words it, on ASCII values. An occurrence
  must not directly follow a letter, a digit or an underscore (\<open>prev\<close> is the unit
  before the position, if any); the white space is tab, LF, VT, FF, CR and space; and
  a further unit other than \<open>/\<close> must follow the \<open>/\<close>. The scan goes on after that
  unit.
\<close>

definition ascii_space :: "byte \<Rightarrow> bool" where
  "ascii_space c = ((0x09 \<le> code c \<and> code c \<le> 0x0D) \<or> c = Chars_Space)"

definition ascii_word :: "byte \<Rightarrow> bool" where
  "ascii_word c =
     ((0x30 \<le> code c \<and> code c \<le> 0x39) \<or> (0x41 \<le> code c \<and> code c \<le> 0x5A)
      \<or> c = Chars_Underscore \<or> (0x61 \<le> code c \<and> code c \<le> 0x7A))"

definition amended_occurrence ::
  "byte option \<Rightarrow> byte list \<Rightarrow> (byte list \<times> byte \<times> byte list) option" where
  "amended_occurrence prev s =
     (if (case prev of None \<Rightarrow> True | Some p \<Rightarrow> \<not> ascii_word p) \<and> take 4 s = ''url('' then
        (case dropWhile ascii_space (drop 4 s) of
           slash # c # rest \<Rightarrow>
             if slash = Chars_Slash \<and> c \<noteq> Chars_Slash
             then Some (''url('' @ takeWhile ascii_space (drop 4 s), c, rest)
             else None
         | _ \<Rightarrow> None)
      else None)"

function amended_css_rewrite :: "byte list \<Rightarrow> byte option \<Rightarrow> byte list \<Rightarrow> byte list" where
  "amended_css_rewrite pfx prev s =
     (case s of
        [] \<Rightarrow> []
      | c # cs \<Rightarrow>
          (case amended_occurrence prev s of
             None \<Rightarrow> c # amended_css_rewrite pfx (Some c) cs
           | Some (before_slash, d, rest) \<Rightarrow>
               before_slash @ pfx @ Chars_Slash # d # amended_css_rewrite pfx (Some d) rest))"
  by pat_completeness auto
termination
proof (relation "measure (\<lambda>(pfx, prev, s). length s)")
  fix pfx s :: "byte list" and prev :: "byte option" and c cs x before_slash y d rest
  assume "s = c # cs" and "amended_occurrence prev s = Some x" and "(before_slash, y) = x"
    and "(d, rest) = y"
  then have "amended_occurrence prev s = Some (before_slash, d, rest)" by simp
  then obtain slash where "dropWhile ascii_space (drop 4 s) = slash # d # rest"
    by (auto simp: amended_occurrence_def split: if_splits list.splits)
  moreover have "length (dropWhile ascii_space (drop 4 s)) \<le> length (drop 4 s)"
    by (rule length_dropWhile_le)
  ultimately have "length rest < length s" by simp
  then show "((pfx, Some d, rest), (pfx, prev, s)) \<in> measure (\<lambda>(pfx, prev, s). length s)"
    by simp
qed auto

declare amended_css_rewrite.simps [simp del]

text \<open>
  The URL-list rewrite as claim C4 words it, on bytes: the value split on \<open>,\<close>, each
  candidate trimmed, the prefix put before a candidate that begins with \<open>/\<close>, the
  candidates joined with a comma and a space.
\<close>

fun split_commas :: "byte list \<Rightarrow> byte list list" where
  "split_commas [] = [[]]"
| "split_commas (c # cs) =
     (if c = CHR '','' then [] # split_commas cs
      else (case split_commas cs of
              [] \<Rightarrow> [[c]]
            | piece # pieces \<Rightarrow> (c # piece) # pieces))"

definition trim_spaces :: "byte list \<Rightarrow> byte list" where
  "trim_spaces s = rev (dropWhile ascii_space (rev (dropWhile ascii_space s)))"

fun join_candidates :: "byte list list \<Rightarrow> byte list" where
  "join_candidates [] = []"
| "join_candidates [piece] = piece"
| "join_candidates (piece # pieces) = piece @ '', '' @ join_candidates pieces"

definition claimed_candidate :: "byte list \<Rightarrow> byte list \<Rightarrow> byte list" where
  "claimed_candidate pfx piece =
     (if take 1 (trim_spaces piece) = ''/'' then pfx @ trim_spaces piece else trim_spaces piece)"

definition claimed_srcset :: "byte list \<Rightarrow> byte list \<Rightarrow> byte list" where
  "claimed_srcset pfx val = join_candidates (map (claimed_candidate pfx) (split_commas val))"

section \<open>Properties of the output buffer\<close>

lemma buffer_ok_new: "0 < n \<Longrightarrow> buffer_ok (WriteBuffer_new n)"
  by (simp add: buffer_ok_def WriteBuffer_new_def)

lemma emitted_new: "emitted (WriteBuffer_new n) = []"
  by (simp add: emitted_def WriteBuffer_new_def)

lemma buffer_ok_writeChar: "buffer_ok wb \<Longrightarrow> buffer_ok (writeChar ch wb)"
  by (cases "buf wb") (auto simp: buffer_ok_def writeChar_def flush_def Let_def)

lemma emitted_writeChar:
  assumes ok: "buffer_ok wb"
  shows "emitted (writeChar ch wb) = emitted wb @ [ch]"
proof (cases "length (buf wb) \<le> offset wb")
  case True
  with ok have full: "offset wb = length (buf wb)" and pos: "0 < length (buf wb)"
    by (auto simp: buffer_ok_def)
  from pos obtain k where "length (buf wb) = Suc k"
    by (cases "length (buf wb)") auto
  with full show ?thesis
    by (simp add: emitted_def writeChar_def flush_def)
next
  case False
  then have "offset wb < length (buf wb)" by simp
  then show ?thesis
    by (simp add: emitted_def writeChar_def take_Suc_conv_app_nth)
qed

lemma buffer_ok_flush: "buffer_ok wb \<Longrightarrow> buffer_ok (flush wb)"
  by (simp add: buffer_ok_def flush_def)

lemma outs_flush: "concat (outs (flush wb)) = emitted wb"
  by (simp add: emitted_def flush_def)

lemma fold_writeChar:
  "buffer_ok wb \<Longrightarrow>
     buffer_ok (fold writeChar arr wb) \<and> emitted (fold writeChar arr wb) = emitted wb @ arr"
  by (induction arr arbitrary: wb) (simp_all add: buffer_ok_writeChar emitted_writeChar)

lemma writeChunk_string:
  "writeChunk (StringChunk s) wb = writeChunk (ArrayChunk (map char_of s)) wb"
  by (simp add: fold_map comp_def)

lemma buffer_ok_writeChunk: "buffer_ok wb \<Longrightarrow> buffer_ok (writeChunk c wb)"
  by (cases c) (simp_all only: writeChunk_string, simp_all add: fold_writeChar)

lemma emitted_writeChunk:
  "buffer_ok wb \<Longrightarrow> emitted (writeChunk c wb) = emitted wb @ chunk_bytes c"
  by (cases c) (simp_all only: writeChunk_string, simp_all add: fold_writeChar chunk_bytes_def)

text \<open>
  Rules that keep a buffer in the form \<open>writeChunk (ArrayChunk cs) (WriteBuffer_new n)\<close>
  while a run is evaluated on a concrete input.
\<close>

lemma writeChar_new:
  "writeChar c (WriteBuffer_new n) = writeChunk (ArrayChunk [c]) (WriteBuffer_new n)"
  by simp

lemma writeChar_written:
  "writeChar c (writeChunk (ArrayChunk cs) wb) = writeChunk (ArrayChunk (cs @ [c])) wb"
  by simp

lemma writeChunk_written:
  "writeChunk (ArrayChunk ys) (writeChunk (ArrayChunk xs) wb) = writeChunk (ArrayChunk (xs @ ys)) wb"
  by simp

declare writeChunk.simps [simp del]

lemma emitted_written_new:
  "0 < n \<Longrightarrow> emitted (writeChunk (ArrayChunk cs) (WriteBuffer_new n)) = cs"
  by (simp add: emitted_writeChunk chunk_bytes_def buffer_ok_new emitted_new)

lemma flushed_written_new:
  "0 < n \<Longrightarrow> concat (outs (flush (writeChunk (ArrayChunk cs) (WriteBuffer_new n)))) = cs"
  by (simp add: outs_flush emitted_written_new)

lemma flushed_new: "concat (outs (flush (WriteBuffer_new n))) = []"
  by (simp add: outs_flush emitted_new)

lemmas sm_defs =
  SM_find_doctype_def SM_read_doctype_def SM_writethrough_def SM_writethrough_to_end_def
  SM_read_tag_name_def SM_find_attr_name_start_def SM_read_attr_name_def SM_find_attr_equals_def
  SM_find_attr_value_start_def SM_find_attr_value_end_quote_def
  SM_find_attr_value_end_no_quote_def SM_find_tag_end_def SM_find_script_end_def
  SM_find_comment_end_def end_of_value_def endOfTagCheck_def

lemmas char_defs = isNameChar_def isTagChar_def isWhitespace_def isNonWhitespace_def

lemmas run_defs =
  sink_bytes_def run_def new_HTMLTransformer_def new_vars_def HTMLTransformer_transform_def
  HTMLTransformer_flush_def

lemmas table_defs =
  RewriteTags_get_def RewriteTags_def Object_prototype_def attrs_get_def call_writeAttr_def
  writeValue_def prefixValue_def prefixSrcSetValues_def prefixCSSURLValues_def
  starts_with_one_slash_def DOCTYPE_def str_def utf8_decode.simps toLowerCase_def lower_unit_def

lemmas string_defs =
  srcset_values_def prefix_candidate_def trim_def js_space_def in_range_def utf16_def
  second_lo_def second_hi_def css_values_def css_replacement_def match_url_def
  word_boundary_def is_word_unit_def matched_text_def is_digit_def capture_ok_def
  replace_url.simps

lemmas buffer_simps =
  writeChar_new writeChar_written writeChunk_string writeChunk_written
  emitted_written_new flushed_written_new flushed_new emitted_new

lemmas eval_defs = run_defs sm_defs char_defs table_defs buffer_simps Let_def char_of_eq_iff

section \<open>The single-URL strategy\<close>

lemma starts_with_one_slash_iff:
  "starts_with_one_slash val = (take 1 val = ''/'' \<and> take 2 val \<noteq> ''//'')"
  by (cases val; cases "tl val") (auto simp: starts_with_one_slash_def)

text \<open>
  Claim C3. For a value rewritten with \<open>prefixValue\<close> and a prefix that is not empty, the
  bytes emitted are the prefix followed by the value if and only if the value's first
  unit is \<open>/\<close> and its second unit is not \<open>/\<close>; they are the value alone if and only if
  that fails, which is the case of a protocol-relative \<open>//...\<close>. The prefix appears as
  the buffer writes a string: the low byte of each code unit.
\<close>

theorem prefixValue_iff_single_slash:
  assumes "buffer_ok buffer" and "attrValue v = Some val" and "prefix v \<noteq> []"
  shows "\<exists>b. prefixValue v buffer = Inr b
           \<and> (emitted b = emitted buffer @ map char_of (prefix v) @ val)
               = (take 1 val = ''/'' \<and> take 2 val \<noteq> ''//'')
           \<and> (emitted b = emitted buffer @ val)
               = (\<not> (take 1 val = ''/'' \<and> take 2 val \<noteq> ''//''))"
proof (cases "starts_with_one_slash val")
  case True
  with assms have "prefixValue v buffer
      = Inr (writeChunk (ArrayChunk val) (writeChunk (StringChunk (prefix v)) buffer))"
    by (simp add: prefixValue_def)
  moreover have "emitted (writeChunk (ArrayChunk val) (writeChunk (StringChunk (prefix v)) buffer))
      = emitted buffer @ map char_of (prefix v) @ val"
    using assms(1) by (simp add: emitted_writeChunk buffer_ok_writeChunk chunk_bytes_def)
  ultimately show ?thesis
    using True assms(3) by (simp add: starts_with_one_slash_iff)
next
  case False
  with assms have "prefixValue v buffer = Inr (writeChunk (ArrayChunk val) buffer)"
    by (simp add: prefixValue_def)
  moreover have "emitted (writeChunk (ArrayChunk val) buffer) = emitted buffer @ val"
    using assms(1) by (simp add: emitted_writeChunk chunk_bytes_def)
  ultimately show ?thesis
    using False assms(3) by (simp add: starts_with_one_slash_iff)
qed

theorem prefixValue_iff_single_slash_witness:
  "(\<exists>b. prefixValue (new_vars (lit ''/p'') \<lparr>attrValue := Some ''/x.png''\<rparr>) (WriteBuffer_new 4096)
          = Inr b \<and> emitted b = ''/p/x.png'')
   \<and> (\<exists>b. prefixValue (new_vars (lit ''/p'') \<lparr>attrValue := Some ''//cdn/x.png''\<rparr>)
             (WriteBuffer_new 4096) = Inr b \<and> emitted b = ''//cdn/x.png'')"
proof -
  let ?wb = "WriteBuffer_new 4096"
  let ?v1 = "new_vars (lit ''/p'') \<lparr>attrValue := Some ''/x.png''\<rparr>"
  let ?v2 = "new_vars (lit ''/p'') \<lparr>attrValue := Some ''//cdn/x.png''\<rparr>"
  have ok: "buffer_ok ?wb" by (simp add: buffer_ok_new)
  have p1: "prefix ?v1 \<noteq> []" and p2: "prefix ?v2 \<noteq> []" by (simp_all add: new_vars_def)
  have a1: "attrValue ?v1 = Some ''/x.png''" and a2: "attrValue ?v2 = Some ''//cdn/x.png''"
    by simp_all
  from prefixValue_iff_single_slash [OF ok a1 p1]
  obtain b1 where "prefixValue ?v1 ?wb = Inr b1" and "emitted b1 = ''/p/x.png''"
    by (auto simp: emitted_new new_vars_def char_of_eq_iff)
  moreover from prefixValue_iff_single_slash [OF ok a2 p2]
  obtain b2 where "prefixValue ?v2 ?wb = Inr b2" and "emitted b2 = ''//cdn/x.png''"
    by (auto simp: emitted_new new_vars_def)
  ultimately show ?thesis by blast
qed

section \<open>Runs on concrete inputs\<close>

text \<open>
  Claim C1 (identity under the empty prefix). The header of the source promises output
  byte-for-byte identical to the input when the prefix is empty. The state
  \<open>find-attr-value-start\<close> writes nothing while it skips white space, so the space
  after \<open>=\<close> in \<open><a href= x>\<close> is lost: with the empty prefix the output differs from
  the input.
\<close>

theorem empty_prefix_drops_space_before_value:
  "sink_bytes [] [''<!DOCTYPE html><a href= x>''] = Inr ''<!DOCTYPE html><a href=x>''"
  by (simp add: eval_defs)

text \<open>
  Claim C2 (a chunk never raises). An attribute named \<open>__proto__\<close> is looked up in the
  table of its tag with \<open>vars.attrs[attrName]\<close>; the table is an object literal, the read
  yields \<open>Object.prototype\<close>, which is truthy and becomes \<open>vars.writeAttr\<close>. At the end
  of the value the call \<open>vars.writeAttr(vars, buffer)\<close> throws a \<open>TypeError\<close>.
\<close>

theorem proto_attribute_raises:
  "sink_bytes (lit ''/p'') [''<!DOCTYPE html><a __proto__=x>''] = Inl TypeError"
  by (simp add: eval_defs)

text \<open>
  Claim C4 (URL-list strategy). The value is decoded as UTF-8 into a string, and the
  rewritten string is written one code unit at a time, each cut to its low byte. The
  two bytes C3 A9 (an accented letter) in a candidate come out as the single byte E9, so the
  emitted value is not the input's candidates, trimmed, prefixed and rejoined.
\<close>

theorem srcset_value_loses_utf8_bytes:
  "map_sum id emitted
     (prefixSrcSetValues
        (new_vars (lit ''/p'')
           \<lparr>attrValue := Some (''/'' @ [CHR 0xC3, CHR 0xA9] @ ''.png 1x, /b.png 2x'')\<rparr>)
        (WriteBuffer_new 4096))
   = Inr (''/p/'' @ [CHR 0xE9] @ ''.png 1x, /p/b.png 2x'')"
  by (simp add: eval_defs string_defs)

text \<open>
  Claim C7 (script body immunity). \<open>find-script-end\<close> leaves \<open>vars.currentTag\<close> holding
  \<open>/script\<close> when it meets the closing tag. In the next \<open>script\<close> element the first
  unit that is neither \<open><\<close>, \<open>/\<close> nor a name character finds that stale name and ends
  script mode: the body of the second element is parsed as markup, and the \<open>href\<close>
  inside it is rewritten.
\<close>

theorem second_script_body_is_rewritten:
  "sink_bytes (lit ''/p'')
     [''<!DOCTYPE html><script></script><script> <a href=/x></script>'']
   = Inr ''<!DOCTYPE html><script></script><script> <a href=/p/x></script>''"
  by (simp add: eval_defs)

text \<open>
  Claim C8 (bytes from 0x80 on are preserved). Inside a \<open>srcset\<close> value the bytes C3 A9
  are decoded to the code unit U+00E9 and written back as the one byte E9.
\<close>

theorem srcset_attribute_changes_high_bytes:
  "sink_bytes (lit ''/p'') [''<!DOCTYPE html><img srcset='' @ [CHR 0xC3, CHR 0xA9] @ ''>'']
   = Inr (''<!DOCTYPE html><img srcset='' @ [CHR 0xE9] @ ''>'')"
  by (simp add: eval_defs string_defs)

text \<open>
  Claim C9 (flush on stream end). \<open>_flush\<close> writes an open value and flushes the
  buffer, but never calls the callback it is given, so the stream does not signal its
  end: after a whole document and \<open>end()\<close>, \<open>ended\<close> is false.
\<close>

theorem flush_does_not_signal_completion:
  "map_sum id ended (run [] [''<!DOCTYPE html><p>x</p>'']) = Inr False"
  by (simp add: eval_defs)

text \<open>
  Claim C10 (an attribute name that is not lower-case resolves to passthrough). The
  name \<open>toString\<close> is not lower-case and is no key of the table of \<open>a\<close>, yet
  \<open>vars.attrs[attrName]\<close> finds \<open>Object.prototype.toString\<close>, which is truthy; called
  at the end of the value it writes nothing, and the value \<open>/x\<close> is lost.
\<close>

theorem inherited_attribute_name_drops_value:
  "sink_bytes (lit ''/p'') [''<!DOCTYPE html><a toString=/x>'']
   = Inr ''<!DOCTYPE html><a toString=>''"
  by (simp add: eval_defs)

section \<open>Doctype gating\<close>

text \<open>Chunk boundaries are not seen: the loop over a chunk resumes where the last one stopped.\<close>

lemma transform_loop_append:
  "transform_loop st b v (xs @ ys) =
     (case transform_loop st b v xs of
        Inl e \<Rightarrow> Inl e
      | Inr (st', b', v') \<Rightarrow> transform_loop st' b' v' ys)"
  by (induction xs arbitrary: st b v) (auto split: sum.splits option.splits)

lemma write_chunks_concat:
  "write_chunks t chunks =
     (case transform_loop (t_state t) (t_buffer t) (t_vars t) (concat chunks) of
        Inl e \<Rightarrow> Inl e
      | Inr (st, b, v) \<Rightarrow> Inr (\<lparr> t_vars = v, t_state = st, t_buffer = b \<rparr>, True))"
proof (induction chunks arbitrary: t)
  case Nil
  show ?case by (cases t) simp
next
  case (Cons c cs)
  show ?case
    by (simp add: HTMLTransformer_transform_def transform_loop_append Cons split: sum.splits prod.splits)
qed

lemma to_end_passes:
  "buffer_ok b \<Longrightarrow>
     \<exists>b'. transform_loop writethrough_to_end b v cs = Inr (writethrough_to_end, b', v)
          \<and> buffer_ok b' \<and> emitted b' = emitted b @ cs"
proof (induction cs arbitrary: b)
  case Nil
  then show ?case by simp
next
  case (Cons c cs)
  have "buffer_ok (writeChar c b)" and "emitted (writeChar c b) = emitted b @ [c]"
    using Cons.prems by (simp_all add: buffer_ok_writeChar emitted_writeChar)
  with Cons.IH [of "writeChar c b"] show ?case
    by (auto simp: SM_writethrough_to_end_def)
qed

lemma read_doctype_passes:
  assumes "buffer_ok b" and "attrValue v = None" and "doctype v = Some d"
    and "\<not> (Chars_Gt \<in> set cs
             \<and> toLowerCase (str (d @ filter isNonWhitespace (takeWhile (\<lambda>x. x \<noteq> Chars_Gt) cs)))
                 = DOCTYPE)"
  shows "\<exists>st' b' v'. transform_loop read_doctype b v cs = Inr (st', b', v')
           \<and> buffer_ok b' \<and> emitted b' = emitted b @ cs \<and> attrValue v' = None"
  using assms
proof (induction cs arbitrary: b v d)
  case Nil
  then show ?case by simp
next
  case (Cons c cs)
  let ?b = "writeChar c b"
  have ok: "buffer_ok ?b" and em: "emitted ?b = emitted b @ [c]"
    using Cons.prems(1) by (simp_all add: buffer_ok_writeChar emitted_writeChar)
  show ?case
  proof (cases "c = Chars_Gt")
    case True
    with Cons.prems have "toLowerCase (str d) \<noteq> DOCTYPE"
      by simp
    with True Cons.prems(3)
    have step: "SM_read_doctype c b v = goto writethrough_to_end ?b (v\<lparr>doctype := None\<rparr>)"
      by (simp add: SM_read_doctype_def)
    from to_end_passes [OF ok, of "v\<lparr>doctype := None\<rparr>" cs]
    show ?thesis using step em Cons.prems(2) by auto
  next
    case False
    define d' where "d' = (if \<not> isWhitespace c then d @ [c] else d)"
    show ?thesis
    proof (cases "length DOCTYPE < length d'")
      case True
      with False Cons.prems(3)
      have step: "SM_read_doctype c b v = goto writethrough_to_end ?b (v\<lparr>doctype := None\<rparr>)"
        by (simp add: SM_read_doctype_def d'_def Let_def)
      from to_end_passes [OF ok, of "v\<lparr>doctype := None\<rparr>" cs]
      show ?thesis using step em Cons.prems(2) by auto
    next
      case short: False
      with False Cons.prems(3)
      have step: "SM_read_doctype c b v = goto read_doctype ?b (v\<lparr>doctype := Some d'\<rparr>)"
        by (simp add: SM_read_doctype_def d'_def Let_def)
      have eq: "d @ filter isNonWhitespace (takeWhile (\<lambda>x. x \<noteq> Chars_Gt) (c # cs))
                 = d' @ filter isNonWhitespace (takeWhile (\<lambda>x. x \<noteq> Chars_Gt) cs)"
        using False by (simp add: d'_def isNonWhitespace_def)
      have "\<not> (Chars_Gt \<in> set cs
               \<and> toLowerCase (str (d' @ filter isNonWhitespace (takeWhile (\<lambda>x. x \<noteq> Chars_Gt) cs)))
                   = DOCTYPE)"
        using Cons.prems(4) False unfolding eq [symmetric] by auto
      from Cons.IH [OF ok _ _ this, of "v\<lparr>doctype := Some d'\<rparr>"] Cons.prems(2)
      show ?thesis using step em by auto
    qed
  qed
qed

lemma find_doctype_passes:
  assumes "buffer_ok b" and "attrValue v = None"
    and "\<not> (case dropWhile isWhitespace cs of
              [] \<Rightarrow> False
            | c # r \<Rightarrow> c = Chars_Lt \<and> Chars_Gt \<in> set r
                \<and> toLowerCase (str (filter isNonWhitespace (takeWhile (\<lambda>x. x \<noteq> Chars_Gt) r)))
                    = DOCTYPE)"
  shows "\<exists>st' b' v'. transform_loop find_doctype b v cs = Inr (st', b', v')
           \<and> buffer_ok b' \<and> emitted b' = emitted b @ cs \<and> attrValue v' = None"
  using assms
proof (induction cs arbitrary: b)
  case Nil
  then show ?case by simp
next
  case (Cons c cs)
  let ?b = "writeChar c b"
  have ok: "buffer_ok ?b" and em: "emitted ?b = emitted b @ [c]"
    using Cons.prems(1) by (simp_all add: buffer_ok_writeChar emitted_writeChar)
  consider (ws) "isWhitespace c" | (lt) "\<not> isWhitespace c" "c = Chars_Lt"
    | (other) "\<not> isWhitespace c" "c \<noteq> Chars_Lt"
    by blast
  then show ?case
  proof cases
    case ws
    then have step: "SM_find_doctype c b v = goto find_doctype ?b v"
      by (simp add: SM_find_doctype_def)
    from Cons.IH [OF ok Cons.prems(2)] Cons.prems(3) ws
    show ?thesis using step em by auto
  next
    case lt
    then have step: "SM_find_doctype c b v = goto read_doctype ?b (v\<lparr>doctype := Some []\<rparr>)"
      by (simp add: SM_find_doctype_def)
    have "\<not> (Chars_Gt \<in> set cs
             \<and> toLowerCase (str ([] @ filter isNonWhitespace (takeWhile (\<lambda>x. x \<noteq> Chars_Gt) cs)))
                 = DOCTYPE)"
      using Cons.prems(3) lt by simp
    from read_doctype_passes [OF ok _ _ this, of "v\<lparr>doctype := Some []\<rparr>"] Cons.prems(2)
    show ?thesis using step em by auto
  next
    case other
    then have step: "SM_find_doctype c b v = goto writethrough_to_end ?b v"
      by (simp add: SM_find_doctype_def)
    from to_end_passes [OF ok, of v cs]
    show ?thesis using step em Cons.prems(2) by auto
  qed
qed

lemma lower_unit_in_DOCTYPE:
  "\<forall>x \<in> set (lower_unit u). x \<in> set DOCTYPE \<Longrightarrow> u < 0x80"
  by (auto simp: lower_unit_def DOCTYPE_def split: if_splits)

lemma toLowerCase_DOCTYPE_ascii:
  assumes "toLowerCase s = DOCTYPE"
  shows "\<forall>u \<in> set s. u < 0x80"
proof
  fix u assume "u \<in> set s"
  then have "set (lower_unit u) \<subseteq> set (toLowerCase s)"
    by (auto simp: toLowerCase_def)
  with assms have "\<forall>x \<in> set (lower_unit u). x \<in> set DOCTYPE" by auto
  then show "u < 0x80" by (rule lower_unit_in_DOCTYPE)
qed

lemma decode_high_head:
  assumes "0x80 \<le> code b"
  shows "\<exists>u \<in> set (utf8_decode (b # bs)). 0x80 \<le> u"
proof -
  consider (two) "0xC2 \<le> code b" "code b \<le> 0xDF"
    | (three) "0xE0 \<le> code b" "code b \<le> 0xEF"
    | (four) "0xF0 \<le> code b" "code b \<le> 0xF4"
    | (bad) "code b < 0xC2 \<or> 0xF4 < code b"
    by linarith
  then have "utf8_decode (b # bs) \<noteq> [] \<and> 0x80 \<le> hd (utf8_decode (b # bs))"
  proof cases
    case two
    then show ?thesis
      by (auto simp: utf8_decode.simps in_range_def split: list.splits)
  next
    case three
    then show ?thesis
      by (auto simp: utf8_decode.simps in_range_def second_lo_def split: list.splits)
  next
    case four
    then show ?thesis
      by (auto simp: utf8_decode.simps in_range_def second_lo_def utf16_def split: list.splits)
  next
    case bad
    with assms show ?thesis
      by (auto simp: utf8_decode.simps)
  qed
  then show ?thesis by (cases "utf8_decode (b # bs)") auto
qed

lemma decode_ascii:
  "\<forall>u \<in> set (utf8_decode bs). u < 0x80 \<Longrightarrow> utf8_decode bs = map of_char bs \<and> (\<forall>b \<in> set bs. code b < 0x80)"
proof (induction bs)
  case Nil
  show ?case by simp
next
  case (Cons b bs)
  have low: "code b < 0x80"
  proof (rule ccontr)
    assume "\<not> code b < 0x80"
    then have "0x80 \<le> code b" by simp
    from decode_high_head [OF this, of bs]
    obtain u where "u \<in> set (utf8_decode (b # bs))" and "0x80 \<le> u" by blast
    moreover from this(1) Cons.prems have "u < 0x80" by blast
    ultimately show False by simp
  qed
  then have step: "utf8_decode (b # bs) = code b # utf8_decode bs"
    by (simp add: utf8_decode.simps)
  with Cons.prems have "\<forall>u \<in> set (utf8_decode bs). u < 0x80" by simp
  with Cons.IH step low show ?case by simp
qed

lemma lower_unit_ascii:
  "code c < 0x80 \<Longrightarrow> lower_unit (code c) = [code (ascii_lower c)]"
  by (simp add: lower_unit_def ascii_lower_def)

lemma toLowerCase_ascii:
  "\<forall>b \<in> set bs. code b < 0x80 \<Longrightarrow> toLowerCase (map of_char bs) = map of_char (map ascii_lower bs)"
  by (induction bs) (simp_all add: toLowerCase_def lower_unit_ascii)

lemma doctype_test:
  assumes "toLowerCase (str d) = DOCTYPE"
  shows "map ascii_lower d = ''!doctypehtml''"
proof -
  from assms have "\<forall>u \<in> set (utf8_decode d). u < 0x80"
    unfolding str_def by (rule toLowerCase_DOCTYPE_ascii)
  then have dec: "utf8_decode d = map of_char d" and asc: "\<forall>b \<in> set d. code b < 0x80"
    using decode_ascii by blast+
  from assms dec toLowerCase_ascii [OF asc]
  have "map (of_char :: char \<Rightarrow> nat) (map ascii_lower d) = map of_char ''!doctypehtml''"
    by (simp add: str_def DOCTYPE_def)
  then show ?thesis
    by (rule map_injective) (simp add: inj_on_def)
qed

text \<open>
  Claim C6. An input that does not begin, after optional white space, with a
  declaration \<open><\<close> ... \<open>>\<close> whose units other than white space read \<open>!doctypehtml\<close> in any
  letter case, is emitted unchanged, for every prefix and every cut into chunks. Such an
  input is one with no \<open><\<close> first, with no \<open>>\<close>, with another body, or with more than
  twelve units in the body before the \<open>>\<close>.
\<close>

theorem doctype_gating:
  assumes "\<not> begins_with_html_doctype (concat chunks)"
  shows "sink_bytes pfx chunks = Inr (concat chunks)"
proof -
  let ?t = "new_HTMLTransformer pfx"
  have ok: "buffer_ok (t_buffer ?t)" and em: "emitted (t_buffer ?t) = []"
    and av: "attrValue (t_vars ?t) = None" and st: "t_state ?t = find_doctype"
    by (simp_all add: new_HTMLTransformer_def new_vars_def buffer_ok_new emitted_new)
  have "\<not> (case dropWhile isWhitespace (concat chunks) of
              [] \<Rightarrow> False
            | c # r \<Rightarrow> c = Chars_Lt \<and> Chars_Gt \<in> set r
                \<and> toLowerCase (str (filter isNonWhitespace (takeWhile (\<lambda>x. x \<noteq> Chars_Gt) r)))
                    = DOCTYPE)"
  proof (cases "dropWhile isWhitespace (concat chunks)")
    case Nil
    show ?thesis unfolding Nil by simp
  next
    case (Cons c r)
    with assms have "\<not> (c = Chars_Lt \<and> Chars_Gt \<in> set r
        \<and> map ascii_lower (filter isNonWhitespace (takeWhile (\<lambda>x. x \<noteq> Chars_Gt) r))
            = ''!doctypehtml'')"
      by (simp add: begins_with_html_doctype_def)
    with doctype_test [of "filter isNonWhitespace (takeWhile (\<lambda>x. x \<noteq> Chars_Gt) r)"]
    show ?thesis unfolding Cons by auto
  qed
  from find_doctype_passes [OF ok av this]
  obtain st' b' v' where
    loop: "transform_loop find_doctype (t_buffer ?t) (t_vars ?t) (concat chunks) = Inr (st', b', v')"
    and ok': "buffer_ok b'" and em': "emitted b' = concat chunks" and av': "attrValue v' = None"
    using em by auto
  have "write_chunks ?t chunks = Inr (\<lparr> t_vars = v', t_state = st', t_buffer = b' \<rparr>, True)"
    using loop st by (simp add: write_chunks_concat)
  then show ?thesis
    using av' em' by (simp add: sink_bytes_def run_def HTMLTransformer_flush_def outs_flush)
qed

theorem doctype_gating_witness:
  "\<not> begins_with_html_doctype (concat [''  <!DOCTYPE htm'', ''lx><a href=/x>''])
   \<and> sink_bytes (lit ''/p'') [''  <!DOCTYPE htm'', ''lx><a href=/x>'']
       = Inr ''  <!DOCTYPE htmlx><a href=/x>''"
proof -
  have h: "\<not> begins_with_html_doctype (concat [''  <!DOCTYPE htm'', ''lx><a href=/x>''])"
    by (simp add: begins_with_html_doctype_def char_defs ascii_lower_def char_of_eq_iff)
  from doctype_gating [OF h] h show ?thesis by simp
qed

section \<open>The CSS-URL strategy\<close>

text \<open>With no dollar sign in the prefix, the replacement text expands to the prefix itself.\<close>

lemma get_substitution_plain:
  "0x24 \<notin> set t \<Longrightarrow>
     get_substitution m b a caps (t @ r) = t @ get_substitution m b a caps r"
proof (induction t)
  case Nil
  show ?case by simp
next
  case (Cons u t)
  then have u: "u \<noteq> 0x24" and t: "0x24 \<notin> set t" by auto
  show ?case
  proof (cases "t @ r")
    case Nil
    then show ?thesis by simp
  next
    case (Cons v w)
    with u have "get_substitution m b a caps (u # t @ r) = u # get_substitution m b a caps (t @ r)"
      by simp
    with Cons.IH [OF t] show ?thesis by simp
  qed
qed

lemma css_replacement_expands:
  assumes "0x24 \<notin> set pfx"
  shows "get_substitution m b a [ws, c] (css_replacement pfx) = lit ''url('' @ ws @ pfx @ 0x2F # c"
proof -
  have tail: "get_substitution m b a [ws, c] [0x2F, 0x24, 0x32] = 0x2F # c"
    by (simp add: is_digit_def capture_ok_def)
  have rest: "get_substitution m b a [ws, c] (pfx @ [0x2F, 0x24, 0x32]) = pfx @ 0x2F # c"
    using get_substitution_plain [OF assms, of m b a "[ws, c]" "[0x2F, 0x24, 0x32]"] tail by simp
  obtain w t' where wt: "pfx @ [0x2F, 0x24, 0x32] = w # t'"
    by (cases "pfx @ [0x2F, 0x24, 0x32]") auto
  have "get_substitution m b a [ws, c] (0x24 # 0x31 # w # t')
          = ws @ get_substitution m b a [ws, c] (w # t')"
    by (simp add: is_digit_def capture_ok_def)
  with rest wt have dollar1:
    "get_substitution m b a [ws, c] (0x24 # 0x31 # pfx @ [0x2F, 0x24, 0x32]) = ws @ pfx @ 0x2F # c"
    by simp
  have "css_replacement pfx = lit ''url('' @ (0x24 # 0x31 # pfx @ [0x2F, 0x24, 0x32])"
    by (simp add: css_replacement_def)
  moreover have "0x24 \<notin> set (lit ''url('')" by simp
  ultimately show ?thesis
    using get_substitution_plain [of "lit ''url(''" m b a "[ws, c]"
            "0x24 # 0x31 # pfx @ [0x2F, 0x24, 0x32]"] dollar1
    by simp
qed

text \<open>
  On ASCII bytes the decoder is the identity and the string-level classes agree with
  the byte-level ones, so the scan over the string is the scan over the bytes.
\<close>

lemma byte_eq_code: "(c = d) = (code c = code d)"
  by simp

lemma js_space_ascii: "code c < 0x80 \<Longrightarrow> js_space (code c) = ascii_space c"
  unfolding js_space_def ascii_space_def byte_eq_code [of c Chars_Space]
  by auto

lemma is_word_unit_ascii: "is_word_unit (code c) = ascii_word c"
  unfolding is_word_unit_def ascii_word_def byte_eq_code [of c Chars_Underscore]
  by auto

lemma dropWhile_space_ascii:
  "\<forall>b \<in> set xs. code b < 0x80 \<Longrightarrow>
     dropWhile js_space (map of_char xs) = map of_char (dropWhile ascii_space xs)"
  by (induction xs) (simp_all add: js_space_ascii)

lemma takeWhile_space_ascii:
  "\<forall>b \<in> set xs. code b < 0x80 \<Longrightarrow>
     takeWhile js_space (map of_char xs) = map of_char (takeWhile ascii_space xs)"
  by (induction xs) (simp_all add: js_space_ascii)

lemma take4_url:
  "(take 4 (map of_char s) = lit ''url('') = (take 4 s = ''url('')"
proof -
  have "(take 4 (map of_char s) = lit ''url('') = (map (of_char :: char \<Rightarrow> nat) (take 4 s) = map of_char ''url('')"
    by (simp only: take_map)
  also have "\<dots> = (take 4 s = ''url('')"
    by (rule inj_map_eq_map [OF inj_of_char])
  finally show ?thesis .
qed

lemma amended_occurrence_SomeD:
  assumes "amended_occurrence prev s = Some (h, d, rest)"
  shows "h = ''url('' @ takeWhile ascii_space (drop 4 s)"
    and "dropWhile ascii_space (drop 4 s) = Chars_Slash # d # rest"
    and "set rest \<subseteq> set s" and "length rest < length s"
proof -
  from assms show h: "h = ''url('' @ takeWhile ascii_space (drop 4 s)"
    and d: "dropWhile ascii_space (drop 4 s) = Chars_Slash # d # rest"
    by (auto simp: amended_occurrence_def split: if_splits list.splits)
  have "set (dropWhile ascii_space (drop 4 s)) \<subseteq> set s"
    by (meson set_dropWhileD set_drop_subset subsetD subsetI)
  with d show "set rest \<subseteq> set s" by auto
  have "length (dropWhile ascii_space (drop 4 s)) \<le> length (drop 4 s)"
    by (rule length_dropWhile_le)
  with d show "length rest < length s" by simp
qed

lemma take4_url_units:
  "(take 4 (map of_char s) = [117, 114, 108, 40 :: nat]) = (take 4 s = ''url('')"
  using take4_url [of s] by simp

lemma match_url_ascii:
  assumes asc: "\<forall>b \<in> set s. code b < 0x80"
    and inv: "(before \<noteq> [] \<and> is_word_unit (last before))
                = (case prev of None \<Rightarrow> False | Some p \<Rightarrow> ascii_word p)"
  shows "match_url before (map of_char s)
           = map_option (\<lambda>(h, d, rest). (map of_char (drop 4 h), [code d], map of_char rest))
               (amended_occurrence prev s)"
proof (cases "take 4 s = ''url(''")
  case False
  then show ?thesis
    by (simp add: match_url_def amended_occurrence_def take4_url_units)
next
  case True
  then obtain r where s: "s = CHR ''u'' # r" by (cases s) auto
  have wb: "word_boundary before (map of_char s)
              = (case prev of None \<Rightarrow> True | Some p \<Rightarrow> \<not> ascii_word p)"
    using inv by (auto simp: word_boundary_def s is_word_unit_def split: option.splits)
  have "\<forall>b \<in> set (drop 4 s). code b < 0x80"
    using asc by (meson in_set_dropD)
  then have dw: "dropWhile js_space (drop 4 (map of_char s))
                   = map of_char (dropWhile ascii_space (drop 4 s))"
    and tw: "takeWhile js_space (drop 4 (map of_char s))
                   = map of_char (takeWhile ascii_space (drop 4 s))"
    by (simp_all add: drop_map dropWhile_space_ascii takeWhile_space_ascii)
  have sl: "\<And>x. (code x = 0x2F) = (x = Chars_Slash)"
    by (simp add: byte_eq_code [of _ Chars_Slash])
  define D where "D = dropWhile ascii_space (drop 4 s)"
  define T where "T = takeWhile ascii_space (drop 4 s)"
  define P where "P = (case prev of None \<Rightarrow> True | Some p \<Rightarrow> \<not> ascii_word p)"
  have mu: "match_url before (map of_char s)
      = (if P then (case map of_char D of
                      slash # c # rest \<Rightarrow>
                        if slash = 0x2F \<and> c \<noteq> 0x2F then Some (map of_char T, [c], rest) else None
                    | _ \<Rightarrow> None)
         else None)"
    unfolding match_url_def wb dw tw D_def [symmetric] T_def [symmetric] P_def [symmetric]
    using True by (simp add: take4_url_units)
  have ao: "amended_occurrence prev s
      = (if P then (case D of
                      slash # c # rest \<Rightarrow>
                        if slash = Chars_Slash \<and> c \<noteq> Chars_Slash
                        then Some (''url('' @ T, c, rest) else None
                    | _ \<Rightarrow> None)
         else None)"
    unfolding amended_occurrence_def D_def [symmetric] T_def [symmetric] P_def [symmetric]
    using True by simp
  show ?thesis
    unfolding mu ao
    by (cases D; cases "tl D") (auto simp: sl)
qed

lemma replace_url_ascii:
  assumes nodollar: "0x24 \<notin> set pfx"
  shows "(\<forall>b \<in> set s. code b < 0x80) \<Longrightarrow>
         (before \<noteq> [] \<and> is_word_unit (last before))
            = (case prev of None \<Rightarrow> False | Some p \<Rightarrow> ascii_word p) \<Longrightarrow>
         map char_of (replace_url (css_replacement pfx) before (map of_char s))
           = amended_css_rewrite (map char_of pfx) prev s"
proof (induction "length s" arbitrary: s before prev rule: less_induct)
  case less
  show ?case
  proof (cases s)
    case Nil
    then show ?thesis
      by (simp add: replace_url.simps amended_css_rewrite.simps)
  next
    case (Cons c cs)
    note m = match_url_ascii [OF less.prems]
    show ?thesis
    proof (cases "amended_occurrence prev s")
      case None
      with m have mu: "match_url before (map of_char s) = None" by simp
      have asc: "\<forall>b \<in> set cs. code b < 0x80" using less.prems(1) Cons by simp
      have inv: "(before @ [code c] \<noteq> [] \<and> is_word_unit (last (before @ [code c])))
                   = (case Some c of None \<Rightarrow> False | Some p \<Rightarrow> ascii_word p)"
        by (simp add: is_word_unit_ascii)
      have "map char_of (replace_url (css_replacement pfx) (before @ [code c]) (map of_char cs))
              = amended_css_rewrite (map char_of pfx) (Some c) cs"
        using less.hyps [OF _ asc inv] Cons by simp
      moreover have "replace_url (css_replacement pfx) before (map of_char s)
              = code c # replace_url (css_replacement pfx) (before @ [code c]) (map of_char cs)"
        using mu Cons by (subst replace_url.simps) simp
      moreover have "amended_css_rewrite (map char_of pfx) prev s
              = c # amended_css_rewrite (map char_of pfx) (Some c) cs"
        using None Cons by (subst amended_css_rewrite.simps) simp
      ultimately show ?thesis by simp
    next
      case (Some x)
      then obtain h d rest where occ: "amended_occurrence prev s = Some (h, d, rest)"
        by (cases x) auto
      note facts = amended_occurrence_SomeD [OF occ]
      define ws where "ws = takeWhile ascii_space (drop 4 s)"
      have h: "h = ''url('' @ ws" using facts(1) by (simp add: ws_def)
      from m occ h have mu: "match_url before (map of_char s)
                        = Some (map of_char ws, [code d], map of_char rest)"
        by simp
      have asc: "\<forall>b \<in> set rest. code b < 0x80" using less.prems(1) facts(3) by blast
      have inv: "(before @ matched_text (map of_char ws) [code d] \<noteq> []
                   \<and> is_word_unit (last (before @ matched_text (map of_char ws) [code d])))
                   = (case Some d of None \<Rightarrow> False | Some p \<Rightarrow> ascii_word p)"
        by (simp add: matched_text_def is_word_unit_ascii)
      have ih: "map char_of (replace_url (css_replacement pfx)
                   (before @ matched_text (map of_char ws) [code d]) (map of_char rest))
              = amended_css_rewrite (map char_of pfx) (Some d) rest"
        using less.hyps [OF facts(4) asc inv] .
      have "replace_url (css_replacement pfx) before (map of_char s)
              = get_substitution (matched_text (map of_char ws) [code d]) before (map of_char rest)
                  [map of_char ws, [code d]] (css_replacement pfx)
                @ replace_url (css_replacement pfx)
                    (before @ matched_text (map of_char ws) [code d]) (map of_char rest)"
        using mu Cons by (subst replace_url.simps) simp
      then have "map char_of (replace_url (css_replacement pfx) before (map of_char s))
              = ''url('' @ ws @ map char_of pfx @ Chars_Slash # d
                  # amended_css_rewrite (map char_of pfx) (Some d) rest"
        using ih by (simp add: css_replacement_expands [OF nodollar] comp_def char_of_eq_iff)
      moreover have "amended_css_rewrite (map char_of pfx) prev s
              = h @ map char_of pfx @ Chars_Slash # d # amended_css_rewrite (map char_of pfx) (Some d) rest"
        using occ Cons by (subst amended_css_rewrite.simps) simp
      ultimately show ?thesis using h by simp
    qed
  qed
qed

lemma utf8_decode_ascii:
  "\<forall>b \<in> set bs. code b < 0x80 \<Longrightarrow> utf8_decode bs = map of_char bs"
  by (induction bs) (simp_all add: utf8_decode.simps)

text \<open>
  Claim C5, as amended. For a value of ASCII bytes rewritten with \<open>prefixCSSURLValues\<close>
  and a prefix with no dollar sign, the bytes emitted are those of
  \<open>amended_css_rewrite\<close>: scanning from the left, at each occurrence of \<open>url(\<close> that
  does not directly follow a letter, a digit or an underscore, followed by optional
  white space, a \<open>/\<close> and one further unit other than \<open>/\<close>, the prefix is inserted
  before that \<open>/\<close>; every other byte, \<open>url(//\<close> included, is emitted as it is.
\<close>

theorem css_url_amended:
  assumes "buffer_ok buffer" and "attrValue v = Some val"
    and "\<forall>b \<in> set val. code b < 0x80" and "0x24 \<notin> set (prefix v)"
  shows "\<exists>b. prefixCSSURLValues v buffer = Inr b
           \<and> emitted b = emitted buffer @ amended_css_rewrite (map char_of (prefix v)) None val"
proof -
  have "map char_of (css_values (prefix v) val)
          = amended_css_rewrite (map char_of (prefix v)) None val"
    unfolding css_values_def str_def utf8_decode_ascii [OF assms(3)]
    by (rule replace_url_ascii [OF assms(4) assms(3)]) simp
  then show ?thesis
    using assms(1,2)
    by (simp add: prefixCSSURLValues_def emitted_writeChunk chunk_bytes_def)
qed

lemmas amended_defs = amended_css_rewrite.simps amended_occurrence_def ascii_space_def ascii_word_def

theorem css_url_amended_witness:
  "\<exists>b. prefixCSSURLValues
          (new_vars (lit ''/p'')
             \<lparr>attrValue := Some ''background:url( /img/x.png) xurl(/a) url(//cdn/x.png) url(/''\<rparr>)
          (WriteBuffer_new 4096) = Inr b
      \<and> emitted b = ''background:url( /p/img/x.png) xurl(/a) url(//cdn/x.png) url(/''"
proof -
  let ?val = "''background:url( /img/x.png) xurl(/a) url(//cdn/x.png) url(/''"
  let ?v = "new_vars (lit ''/p'') \<lparr>attrValue := Some ?val\<rparr>"
  have ok: "buffer_ok (WriteBuffer_new 4096)" by (simp add: buffer_ok_new)
  have av: "attrValue ?v = Some ?val" by simp
  have asc: "\<forall>b \<in> set ?val. code b < 0x80" by simp
  have nod: "0x24 \<notin> set (prefix ?v)" by (simp add: new_vars_def)
  have "amended_css_rewrite (map char_of (prefix ?v)) None ?val
          = ''background:url( /p/img/x.png) xurl(/a) url(//cdn/x.png) url(/''"
    by (simp add: amended_defs new_vars_def char_of_eq_iff)
  with css_url_amended [OF ok av asc nod] show ?thesis
    by (simp add: emitted_new)
qed

lemmas claimed_defs = claimed_css_rewrite.simps claimed_occurrence_def

text \<open>
  Claim C5, as stated, fails on the code in two places the regular expression writes
  out: \<open>\b\<close> refuses an \<open>url(\<close> that follows a word character, and \<open>[^\/]\<close> asks for
  a unit after the \<open>/\<close>. In both cases the stated rewrite inserts the prefix and the
  code does not.
\<close>

theorem css_url_claim_counterexample:
  "(map_sum id emitted
      (prefixCSSURLValues (new_vars (lit ''/p'') \<lparr>attrValue := Some ''xurl(/a)''\<rparr>)
         (WriteBuffer_new 4096)) = Inr ''xurl(/a)''
    \<and> claimed_css_rewrite ''/p'' ''xurl(/a)'' = ''xurl(/p/a)'')
   \<and> (map_sum id emitted
        (prefixCSSURLValues (new_vars (lit ''/p'') \<lparr>attrValue := Some ''url(/''\<rparr>)
           (WriteBuffer_new 4096)) = Inr ''url(/''
      \<and> claimed_css_rewrite ''/p'' ''url(/'' = ''url(/p/'')"
  by (simp add: eval_defs string_defs claimed_defs)

section \<open>Further properties of the code\<close>

subsection \<open>The state table is total\<close>

lemma wildcard_table: "RewriteTags_get (lit ''*'') \<noteq> None"
  by (simp add: RewriteTags_get_def RewriteTags_def)

lemma SM_next_defined: "SM st ch b v \<noteq> Inr (None, b', v')"
proof (cases st)
  case read_tag_name
  obtain t where "RewriteTags_get (lit ''*'') = Some t"
    using wildcard_table by blast
  then show ?thesis
    unfolding read_tag_name
    by (auto simp: SM_read_tag_name_def Let_def split: option.splits tag_name.splits)
qed (auto simp: sm_defs Let_def split: option.splits sum.splits if_splits prod.splits)

text \<open>
  No run throws the error of \<open>_transform\<close> for an undefined next state: every step that
  returns, returns a state, since \<open>read-tag-name\<close> always finds a table (the one of \<open>*\<close>
  at least). A run can still end in a \<open>TypeError\<close> thrown by a step.
\<close>

theorem bad_transition_unreachable:
  "transform_loop st b v cs \<noteq> Inl BadParserStateTransition"
proof (induction cs arbitrary: st b v)
  case Nil
  show ?case by simp
next
  case (Cons c cs)
  show ?case
  proof (cases "SM st c b v")
    case (Inl e)
    have "e \<noteq> BadParserStateTransition"
      using Inl
      by (cases st)
         (auto simp: sm_defs SM_read_tag_name_def table_defs Let_def
               split: option.splits sum.splits if_splits prod.splits tag_name.splits
                      attr_table.splits js_value.splits strategy.splits)
    with Inl show ?thesis by simp
  next
    case (Inr r)
    obtain n b' v' where r: "r = (n, b', v')" by (cases r)
    with Inr SM_next_defined [of st c b v b' v'] obtain st' where "n = Some st'"
      by (cases n) auto
    with Inr r Cons.IH [of st' b' v'] show ?thesis by simp
  qed
qed

subsection \<open>The URL-list strategy on ASCII values\<close>

lemma split_comma_ascii:
  "split_comma (map of_char s) = map (map of_char) (split_commas s)"
proof (induction s)
  case Nil
  show ?case by simp
next
  case (Cons c s)
  have comma: "(code c = 0x2C) = (c = CHR '','')"
    by (simp add: byte_eq_code [of c "CHR '',''"])
  show ?case
    using Cons by (cases "split_commas s") (simp_all add: comma)
qed

lemma split_commas_subset: "p \<in> set (split_commas s) \<Longrightarrow> set p \<subseteq> set s"
proof (induction s arbitrary: p)
  case Nil
  then show ?case by simp
next
  case (Cons c s)
  from Cons.IH have ih: "\<forall>q \<in> set (split_commas s). set q \<subseteq> set s" by blast
  show ?case
  proof (cases "split_commas s")
    case Nil
    with Cons.prems show ?thesis by (auto split: if_splits)
  next
    case (Cons a list)
    with ih have "set a \<subseteq> set s" and "\<forall>q \<in> set list. set q \<subseteq> set s" by auto
    with Cons Cons.prems show ?thesis by (fastforce split: if_splits)
  qed
qed

lemma trim_ascii:
  assumes "\<forall>b \<in> set xs. code b < 0x80"
  shows "trim (map of_char xs) = map of_char (trim_spaces xs)"
proof -
  define D where "D = dropWhile ascii_space xs"
  have 1: "dropWhile js_space (map of_char xs) = map of_char D"
    unfolding D_def using assms by (rule dropWhile_space_ascii)
  have "\<forall>b \<in> set (rev D). code b < 0x80"
    unfolding D_def using assms by (auto dest: set_dropWhileD)
  then have "dropWhile js_space (map of_char (rev D)) = map of_char (dropWhile ascii_space (rev D))"
    by (rule dropWhile_space_ascii)
  then have 2: "dropWhile js_space (rev (map of_char D)) = map of_char (dropWhile ascii_space (rev D))"
    by (simp add: rev_map)
  show ?thesis
    unfolding trim_def trim_spaces_def 1 2 D_def [symmetric] by (simp add: rev_map)
qed

lemma prefix_candidate_ascii:
  assumes "\<forall>b \<in> set piece. code b < 0x80"
  shows "map char_of (prefix_candidate pfx (map of_char piece))
           = claimed_candidate (map char_of pfx) piece"
proof -
  have slash: "\<And>x. (code x = 0x2F) = (x = Chars_Slash)"
    by (simp add: byte_eq_code [of _ Chars_Slash])
  show ?thesis
    by (cases "trim_spaces piece")
       (simp_all add: prefix_candidate_def claimed_candidate_def trim_ascii [OF assms] slash comp_def
                     char_of_eq_iff)
qed

lemma join_ascii:
  "map char_of (join_comma_space pieces) = join_candidates (map (map char_of) pieces)"
  by (induction pieces rule: join_comma_space.induct) (simp_all add: char_of_eq_iff)

text \<open>
  On a value of ASCII bytes \<open>prefixSrcSetValues\<close> emits the value split on commas, each
  candidate trimmed, the prefix before each candidate that begins with \<open>/\<close>, joined
  with a comma and a space.
\<close>

theorem srcset_on_ascii_values:
  assumes "buffer_ok buffer" and "attrValue v = Some val" and "\<forall>b \<in> set val. code b < 0x80"
  shows "\<exists>b. prefixSrcSetValues v buffer = Inr b
           \<and> emitted b = emitted buffer @ claimed_srcset (map char_of (prefix v)) val"
proof -
  have "map (\<lambda>p. map char_of (prefix_candidate (prefix v) (map of_char p))) (split_commas val)
          = map (claimed_candidate (map char_of (prefix v))) (split_commas val)"
  proof (rule map_cong [OF refl])
    fix p assume "p \<in> set (split_commas val)"
    with assms(3) split_commas_subset have "\<forall>b \<in> set p. code b < 0x80" by blast
    then show "map char_of (prefix_candidate (prefix v) (map of_char p))
                = claimed_candidate (map char_of (prefix v)) p"
      by (rule prefix_candidate_ascii)
  qed
  note candidates = this
  have "map char_of (srcset_values (prefix v) val)
          = join_candidates
              (map (\<lambda>p. map char_of (prefix_candidate (prefix v) (map of_char p)))
                 (split_commas val))"
    by (simp add: srcset_values_def str_def utf8_decode_ascii [OF assms(3)]
                  split_comma_ascii join_ascii comp_def)
  also have "\<dots> = claimed_srcset (map char_of (prefix v)) val"
    by (simp only: candidates claimed_srcset_def)
  finally have "map char_of (srcset_values (prefix v) val)
                  = claimed_srcset (map char_of (prefix v)) val" .
  then show ?thesis
    using assms(1,2)
    by (simp add: prefixSrcSetValues_def emitted_writeChunk chunk_bytes_def)
qed

theorem srcset_on_ascii_values_witness:
  "\<exists>b. prefixSrcSetValues
          (new_vars (lit ''/p'') \<lparr>attrValue := Some '' /a.png 1x,/b.png 2x ,c.png 3x''\<rparr>)
          (WriteBuffer_new 4096) = Inr b
      \<and> emitted b = ''/p/a.png 1x, /p/b.png 2x, c.png 3x''"
proof -
  let ?val = "'' /a.png 1x,/b.png 2x ,c.png 3x''"
  let ?v = "new_vars (lit ''/p'') \<lparr>attrValue := Some ?val\<rparr>"
  have ok: "buffer_ok (WriteBuffer_new 4096)" by (simp add: buffer_ok_new)
  have av: "attrValue ?v = Some ?val" by simp
  have asc: "\<forall>b \<in> set ?val. code b < 0x80" by simp
  have "claimed_srcset (map char_of (prefix ?v)) ?val = ''/p/a.png 1x, /p/b.png 2x, c.png 3x''"
    by (simp add: claimed_srcset_def claimed_candidate_def trim_spaces_def ascii_space_def
                  new_vars_def char_of_eq_iff)
  with srcset_on_ascii_values [OF ok av asc] show ?thesis
    by (simp add: emitted_new)
qed

subsection \<open>The end of the stream\<close>

text \<open>
  \<open>_flush\<close> pushes downstream everything written so far, followed by the bytes of a
  value that is still open, as they are; the buffer is empty afterwards.
\<close>

theorem flush_emits_open_value:
  assumes "buffer_ok (t_buffer t)"
  shows "concat (outs (t_buffer (fst (HTMLTransformer_flush t))))
           = emitted (t_buffer t) @ (case attrValue (t_vars t) of None \<Rightarrow> [] | Some val \<Rightarrow> val)
         \<and> offset (t_buffer (fst (HTMLTransformer_flush t))) = 0"
proof
  show "concat (outs (t_buffer (fst (HTMLTransformer_flush t))))
           = emitted (t_buffer t) @ (case attrValue (t_vars t) of None \<Rightarrow> [] | Some val \<Rightarrow> val)"
    using assms
    by (cases "attrValue (t_vars t)")
       (simp_all add: HTMLTransformer_flush_def outs_flush emitted_writeChunk chunk_bytes_def)
  show "offset (t_buffer (fst (HTMLTransformer_flush t))) = 0"
    by (simp add: HTMLTransformer_flush_def flush_def)
qed

theorem flush_emits_open_value_witness:
  "sink_bytes (lit ''/p'') [''<!DOCTYPE html><a href=/x''] = Inr ''<!DOCTYPE html><a href=/x''"
proof -
  let ?t = "\<lparr> t_vars = new_vars (lit ''/p'')
                \<lparr>tagName := Some (TagString (lit ''a'')),
                 attrs := Some (Table [(lit ''href'', PrefixValue), (lit ''style'', PrefixCSSURLValues)]),
                 attrName := Some ''href'', writeAttr := Some (Strategy PrefixValue),
                 attrValue := Some ''/x''\<rparr>,
              t_state = find_attr_value_end_no_quote,
              t_buffer = writeChunk (ArrayChunk ''<!DOCTYPE html><a href='') (WriteBuffer_new 4096) \<rparr>"
  have w: "write_chunks (new_HTMLTransformer (lit ''/p'')) [''<!DOCTYPE html><a href=/x''] = Inr (?t, True)"
    by (simp add: eval_defs)
  have ok: "buffer_ok (t_buffer ?t)"
    by (simp add: buffer_ok_writeChunk buffer_ok_new)
  obtain t' fin where f: "HTMLTransformer_flush ?t = (t', fin)"
    by (cases "HTMLTransformer_flush ?t")
  from flush_emits_open_value [OF ok] f
  have "concat (outs (t_buffer t')) = ''<!DOCTYPE html><a href=/x''"
    by (simp add: emitted_written_new)
  with w f show ?thesis
    by (simp add: sink_bytes_def run_def)
qed

subsection \<open>Attribute names are looked up as they are written\<close>

lemma isNameChar_ascii: "isNameChar c \<Longrightarrow> code c < 0x80"
  by (auto simp: isNameChar_def)

lemma table_keys_lower_case:
  assumes "(tag, t) \<in> set RewriteTags" and "(k, f) \<in> set t" and "u \<in> set k"
  shows "\<not> (0x41 \<le> u \<and> u \<le> 0x5A)"
  using assms by (auto simp: RewriteTags_def)

text \<open>
  In a table of \<open>RewriteTags\<close>, an attribute name with an upper-case letter that names no
  member of \<open>Object.prototype\<close> finds nothing, so the rewrite bound to the attribute is
  \<open>writeValue\<close>.
\<close>

theorem upper_case_attribute_is_passthrough:
  assumes "(tag, t) \<in> set RewriteTags"
    and "attrs v = Some (Table t)" and "attrName v = Some name"
    and "\<not> isNameChar ch"
    and "list_all isNameChar name"
    and "list_ex (\<lambda>c. 0x41 \<le> code c \<and> code c \<le> 0x5A) name"
    and "map_of Object_prototype (lit name) = None"
  shows "SM_read_attr_name ch buffer v
           = goto (if ch = Chars_Equals then find_attr_value_start else find_attr_equals)
               (writeChar ch buffer) (v\<lparr>writeAttr := Some (Strategy WriteValue)\<rparr>)"
proof -
  from assms(5) have "\<forall>b \<in> set name. code b < 0x80"
    by (auto simp: list_all_iff dest: isNameChar_ascii)
  then have s: "str name = lit name"
    by (simp add: str_def utf8_decode_ascii)
  from assms(6) obtain c where c: "c \<in> set name" "0x41 \<le> code c" "code c \<le> 0x5A"
    by (auto simp: list_ex_iff)
  have "lit name \<notin> fst ` set t"
  proof
    assume "lit name \<in> fst ` set t"
    then obtain f where "(lit name, f) \<in> set t" by auto
    from table_keys_lower_case [OF assms(1) this, of "code c"] c show False by auto
  qed
  then have "map_of t (lit name) = None"
    by (simp add: map_of_eq_None_iff)
  with assms(2,3,4,7) s show ?thesis
    by (simp add: SM_read_attr_name_def attrs_get_def Let_def)
qed

theorem upper_case_attribute_is_passthrough_witness:
  "SM_read_attr_name Chars_Equals (WriteBuffer_new 4096)
     (new_vars (lit ''/p'')
        \<lparr>attrs := Some (Table [(lit ''href'', PrefixValue), (lit ''style'', PrefixCSSURLValues)]),
         attrName := Some ''HREF''\<rparr>)
   = goto find_attr_value_start (writeChar Chars_Equals (WriteBuffer_new 4096))
       (new_vars (lit ''/p'')
          \<lparr>attrs := Some (Table [(lit ''href'', PrefixValue), (lit ''style'', PrefixCSSURLValues)]),
           attrName := Some ''HREF'', writeAttr := Some (Strategy WriteValue)\<rparr>)"
proof -
  let ?t = "[(lit ''href'', PrefixValue), (lit ''style'', PrefixCSSURLValues)]"
  let ?v = "new_vars (lit ''/p'') \<lparr>attrs := Some (Table ?t), attrName := Some ''HREF''\<rparr>"
  have 1: "(lit ''a'', ?t) \<in> set RewriteTags" by (simp add: RewriteTags_def)
  have 2: "attrs ?v = Some (Table ?t)" and 3: "attrName ?v = Some ''HREF''" by simp_all
  have 4: "\<not> isNameChar Chars_Equals" by (simp add: isNameChar_def)
  have 5: "list_all isNameChar ''HREF''" by (simp add: isNameChar_def)
  have 6: "list_ex (\<lambda>c. 0x41 \<le> code c \<and> code c \<le> 0x5A) ''HREF''" by simp
  have 7: "map_of Object_prototype (lit ''HREF'') = None" by (simp add: Object_prototype_def)
  from upper_case_attribute_is_passthrough [OF 1 2 3 4 5 6 7, of "WriteBuffer_new 4096"]
  show ?thesis by (simp add: new_vars_def)
qed

end
